theory Spec2Isabelle
  imports Main "HOL-Library.Sublist"
begin

section \<open>Values of the program\<close>

text \<open>
  The service of \<^verbatim>\<open>index.py\<close> receives JSON bodies, keeps negotiation sessions in
  the global dictionary \<^verbatim>\<open>negotiations\<close>, and turns the free text of a language
  model into a two-field verdict.

  A Python \<^verbatim>\<open>str\<close> is modelled as a \<^typ>\<open>string\<close> in which every \<^typ>\<open>char\<close> is one code
  point; the model covers the code points 0 to 255.

  A JSON value is what \<^verbatim>\<open>request.json\<close>, \<^verbatim>\<open>response.json()\<close> and \<^verbatim>\<open>json.loads\<close>
  produce. A float is kept as the decimal numeral that prints it (the program only
  tests a float for zero and prints it). A dictionary is an association list in
  insertion order; \<open>map_of\<close> looks a key up.
\<close>

datatype json =
    JNull
  | JBool bool
  | JInt int
  | JFloat string
  | JStr string
  | JArr "json list"
  | JObj "(string \<times> json) list"

type_synonym pydict = "(string \<times> json) list"

text \<open>
  What \<^verbatim>\<open>ast.literal_eval\<close> can return where \<^verbatim>\<open>extract_json\<close> calls it. The call is
  reached only for a text with no \<^verbatim>\<open>{\<close> followed by a \<^verbatim>\<open>}\<close>, and a dictionary or a
  non-empty set is written with such a pair, so the only set is \<^verbatim>\<open>set()\<close> and there
  is no dictionary.
\<close>

datatype pylit =
    LNone
  | LBool bool
  | LInt int
  | LFloat string
  | LComplex string
  | LEllipsis
  | LStr string
  | LBytes string
  | LList "pylit list"
  | LTuple "pylit list"
  | LEmptySet

text \<open>An exception is its class and the text of \<^verbatim>\<open>str(e)\<close>.\<close>

datatype exn_class =
    JSONDecodeError
  | TypeError
  | AttributeError
  | KeyError
  | IndexError
  | OtherError string

datatype pyexn = PyExn exn_class string

fun exn_class_of :: "pyexn \<Rightarrow> exn_class" where
  "exn_class_of (PyExn c m) = c"

fun exn_str :: "pyexn \<Rightarrow> string" where
  "exn_str (PyExn c m) = m"

text \<open>\<^verbatim>\<open>repr\<close> of a key that needs no escaping: the key between single quotes.\<close>

definition squote :: "string \<Rightarrow> string" where
  "squote s = CHR 0x27 # s @ [CHR 0x27]"

subsection \<open>Truth values and printing\<close>

definition is_digit :: "char \<Rightarrow> bool" where
  "is_digit c = (48 \<le> (of_char c :: nat) \<and> (of_char c :: nat) \<le> 57)"

text \<open>A float numeral denotes zero when its mantissa has digits and all of them are 0.\<close>

definition float_is_zero :: "string \<Rightarrow> bool" where
  "float_is_zero r =
     (let m = filter is_digit (takeWhile (\<lambda>c. c \<noteq> CHR ''e'' \<and> c \<noteq> CHR ''E'') r)
      in m \<noteq> [] \<and> list_all (\<lambda>c. c = CHR ''0'') m)"

text \<open>Python's truth value of a JSON value: what \<^verbatim>\<open>not x\<close> negates.\<close>

fun py_truthy :: "json \<Rightarrow> bool" where
  "py_truthy JNull = False"
| "py_truthy (JBool b) = b"
| "py_truthy (JInt i) = (i \<noteq> 0)"
| "py_truthy (JFloat r) = (\<not> float_is_zero r)"
| "py_truthy (JStr s) = (s \<noteq> [])"
| "py_truthy (JArr xs) = (xs \<noteq> [])"
| "py_truthy (JObj d) = (d \<noteq> [])"

fun is_dict :: "json \<Rightarrow> bool" where
  "is_dict (JObj d) = True"
| "is_dict v = False"

fun dict_items :: "json \<Rightarrow> pydict" where
  "dict_items (JObj d) = d"
| "dict_items v = []"

text \<open>\<^verbatim>\<open>d.get(k)\<close>: the value, or \<^verbatim>\<open>None\<close>.\<close>

definition dict_get :: "pydict \<Rightarrow> string \<Rightarrow> json" where
  "dict_get d k = (case map_of d k of None \<Rightarrow> JNull | Some v \<Rightarrow> v)"

text \<open>\<^verbatim>\<open>str\<close> of an int, in decimal.\<close>

fun show_nat :: "nat \<Rightarrow> string" where
  "show_nat n =
     (if n < 10 then [char_of (48 + n)]
      else show_nat (n div 10) @ [char_of (48 + n mod 10)])"

declare show_nat.simps [simp del]

definition show_int :: "int \<Rightarrow> string" where
  "show_int i = (if i < 0 then CHR ''-'' # show_nat (nat (- i)) else show_nat (nat i))"

fun type_name :: "json \<Rightarrow> string" where
  "type_name JNull = ''NoneType''"
| "type_name (JBool b) = ''bool''"
| "type_name (JInt i) = ''int''"
| "type_name (JFloat r) = ''float''"
| "type_name (JStr s) = ''str''"
| "type_name (JArr xs) = ''list''"
| "type_name (JObj d) = ''dict''"

fun lit_type_name :: "pylit \<Rightarrow> string" where
  "lit_type_name LNone = ''NoneType''"
| "lit_type_name (LBool b) = ''bool''"
| "lit_type_name (LInt i) = ''int''"
| "lit_type_name (LFloat r) = ''float''"
| "lit_type_name (LComplex r) = ''complex''"
| "lit_type_name LEllipsis = ''ellipsis''"
| "lit_type_name (LStr s) = ''str''"
| "lit_type_name (LBytes s) = ''bytes''"
| "lit_type_name (LList xs) = ''list''"
| "lit_type_name (LTuple xs) = ''tuple''"
| "lit_type_name LEmptySet = ''set''"

section \<open>The environment\<close>

text \<open>
  The reply of the mediation service to one \<^verbatim>\<open>requests.post\<close>: the fields the
  program reads. \<^verbatim>\<open>response.json()\<close> raises or gives the parsed body.
\<close>

record oracle_response =
  status_code :: int
  response_text :: string
  response_json :: "pyexn + json"

text \<open>
  Everything the program calls and does not define is a parameter: the two library
  parsers, the network call (the outcome of the \<open>n\<close>-th request sent, for a
  transcript; it raises or gives a response) and \<^verbatim>\<open>uuid.uuid4\<close> (the \<open>n\<close>-th
  identifier drawn). The prompt text built from the transcript is passed to the
  network call only, so the transcript stands for it.
\<close>

record env =
  json_loads :: "string \<Rightarrow> pyexn + json"
  literal_eval :: "string \<Rightarrow> pyexn + pylit"
  requests_post :: "nat \<Rightarrow> json list \<Rightarrow> pyexn + oracle_response"
  uuid4 :: "nat \<Rightarrow> string"

section \<open>extract_json\<close>

text \<open>
  \<^verbatim>\<open>re.sub(r"```(?:json)?", "", text)\<close>: scanning from the left, every three
  backticks are deleted, together with a following \<^verbatim>\<open>json\<close>.
\<close>

definition fence :: string where
  "fence = [CHR 0x60, CHR 0x60, CHR 0x60]"

function re_sub_fences :: "string \<Rightarrow> string" where
  "re_sub_fences s =
     (if s = [] then []
      else if prefix (fence @ ''json'') s then re_sub_fences (drop 7 s)
      else if prefix fence s then re_sub_fences (drop 3 s)
      else hd s # re_sub_fences (tl s))"
  by pat_completeness auto
termination
  by (relation "measure length") (auto simp: fence_def)

declare re_sub_fences.simps [simp del]

text \<open>\<^verbatim>\<open>str.strip()\<close>: the characters that \<^verbatim>\<open>str.isspace\<close> accepts, below 256.\<close>

definition py_isspace :: "char \<Rightarrow> bool" where
  "py_isspace c =
     (of_char c \<in> {9, 10, 11, 12, 13, 28, 29, 30, 31, 32, 133, 160 :: nat})"

definition py_strip :: "string \<Rightarrow> string" where
  "py_strip s = rev (dropWhile py_isspace (rev (dropWhile py_isspace s)))"

text \<open>
  \<^verbatim>\<open>re.search(r"\{.*\}", text, re.DOTALL)\<close>: the match starts at the first \<^verbatim>\<open>{\<close> and,
  the star being greedy, ends at the last \<^verbatim>\<open>}\<close> after it; there is none when no
  \<^verbatim>\<open>}\<close> follows the first \<^verbatim>\<open>{\<close>.
\<close>

definition re_search_braces :: "string \<Rightarrow> string option" where
  "re_search_braces s =
     (case dropWhile (\<lambda>c. c \<noteq> CHR ''{'') s of
        [] \<Rightarrow> None
      | b # rest \<Rightarrow>
          if CHR ''}'' \<in> set rest
          then Some (b # rev (dropWhile (\<lambda>c. c \<noteq> CHR ''}'') (rev rest)))
          else None)"

text \<open>\<^verbatim>\<open>.replace('\n', ' ').replace('\r', '')\<close>\<close>

definition replace_newlines :: "string \<Rightarrow> string" where
  "replace_newlines s =
     filter (\<lambda>c. c \<noteq> CHR 0x0D) (map (\<lambda>c. if c = CHR 0x0A then CHR '' '' else c) s)"

text \<open>\<^verbatim>\<open>text = re.sub(r"```(?:json)?", "", text).strip()\<close>\<close>

definition strip_fences :: "string \<Rightarrow> string" where
  "strip_fences raw = py_strip (re_sub_fences raw)"

text \<open>What \<^verbatim>\<open>extract_json\<close> returns: a value of \<^verbatim>\<open>json.loads\<close> or of \<^verbatim>\<open>literal_eval\<close>.\<close>

datatype pyobj = OfJson json | OfLit pylit

definition parse_error_dict :: pydict where
  "parse_error_dict =
     [(''summary'', JStr ''Error parsing response.''),
      (''compromise'', JStr ''Could not extract valid JSON from the model response.'')]"

text \<open>
  The body of the \<^verbatim>\<open>try\<close> of \<^verbatim>\<open>extract_json\<close>. \<^verbatim>\<open>re.sub\<close> raises a TypeError on an
  argument that is not a string.
\<close>

definition extract_json_try :: "env \<Rightarrow> json \<Rightarrow> pyexn + pyobj" where
  "extract_json_try E content =
     (case content of
        JStr raw \<Rightarrow>
          (case re_search_braces (strip_fences raw) of
             Some m \<Rightarrow>
               (case json_loads E (replace_newlines m) of
                  Inl e \<Rightarrow> Inl e
                | Inr v \<Rightarrow> Inr (OfJson v))
           | None \<Rightarrow>
               (case literal_eval E (strip_fences raw) of
                  Inl e \<Rightarrow> Inl e
                | Inr l \<Rightarrow> Inr (OfLit l)))
      | _ \<Rightarrow> Inl (PyExn TypeError ''expected string or bytes-like object''))"

text \<open>\<^verbatim>\<open>except Exception\<close>: every failure gives the dictionary of the handler.\<close>

definition extract_json :: "env \<Rightarrow> json \<Rightarrow> pyobj" where
  "extract_json E content =
     (case extract_json_try E content of
        Inl e \<Rightarrow> OfJson (JObj parse_error_dict)
      | Inr v \<Rightarrow> v)"

section \<open>generate_verdict\<close>

text \<open>\<^verbatim>\<open>k in v\<close> for a string \<open>k\<close>: key of a dictionary, element of a sequence,
  substring of a string; a TypeError on anything else.\<close>

fun py_contains :: "pyobj \<Rightarrow> string \<Rightarrow> pyexn + bool" where
  "py_contains (OfJson (JObj d)) k = Inr (map_of d k \<noteq> None)"
| "py_contains (OfJson (JArr xs)) k = Inr (JStr k \<in> set xs)"
| "py_contains (OfJson (JStr s)) k = Inr (sublist k s)"
| "py_contains (OfJson v) k =
     Inl (PyExn TypeError (''argument of type '' @ squote (type_name v) @ '' is not iterable''))"
| "py_contains (OfLit (LStr s)) k = Inr (sublist k s)"
| "py_contains (OfLit (LList xs)) k = Inr (LStr k \<in> set xs)"
| "py_contains (OfLit (LTuple xs)) k = Inr (LStr k \<in> set xs)"
| "py_contains (OfLit LEmptySet) k = Inr False"
| "py_contains (OfLit (LBytes s)) k =
     Inl (PyExn TypeError (''a bytes-like object is required, not '' @ squote ''str''))"
| "py_contains (OfLit l) k =
     Inl (PyExn TypeError (''argument of type '' @ squote (lit_type_name l) @ '' is not iterable''))"

text \<open>\<^verbatim>\<open>v.get(k, default)\<close>: only a dictionary has the method.\<close>

fun py_get :: "pyobj \<Rightarrow> string \<Rightarrow> json \<Rightarrow> pyexn + json" where
  "py_get (OfJson (JObj d)) k dflt = Inr (case map_of d k of None \<Rightarrow> dflt | Some v \<Rightarrow> v)"
| "py_get (OfJson v) k dflt =
     Inl (PyExn AttributeError
       (squote (type_name v) @ '' object has no attribute '' @ squote ''get''))"
| "py_get (OfLit l) k dflt =
     Inl (PyExn AttributeError
       (squote (lit_type_name l) @ '' object has no attribute '' @ squote ''get''))"

definition fallback_verdict :: pydict where
  "fallback_verdict =
     [(''summary'', JStr ''Failed to generate proper verdict format.''),
      (''compromise'', JStr ''Please try again with clearer negotiation points.'')]"

text \<open>
  \<^verbatim>\<open>"summary" not in verdict or "compromise" not in verdict\<close>: the second test is
  made only when the first key is there.
\<close>

definition lacks_field :: "pyobj \<Rightarrow> pyexn + bool" where
  "lacks_field v =
     (case py_contains v ''summary'' of
        Inl e \<Rightarrow> Inl e
      | Inr False \<Rightarrow> Inr True
      | Inr True \<Rightarrow>
          (case py_contains v ''compromise'' of
             Inl e \<Rightarrow> Inl e
           | Inr b \<Rightarrow> Inr (\<not> b)))"

text \<open>The returned dictionary, \<^verbatim>\<open>compromise\<close> computed first.\<close>

definition shape_verdict :: "pyobj \<Rightarrow> pyexn + pydict" where
  "shape_verdict v =
     (case py_get v ''compromise'' (JStr ''Compromise here'') of
        Inl e \<Rightarrow> Inl e
      | Inr c \<Rightarrow>
          (case py_get v ''summary'' (JStr ''Summary here'') of
             Inl e \<Rightarrow> Inl e
           | Inr s \<Rightarrow> Inr [(''compromise'', c), (''summary'', s)]))"

text \<open>The statements of the inner \<^verbatim>\<open>try\<close>, from the content of the reply.\<close>

definition parse_verdict_try :: "env \<Rightarrow> json \<Rightarrow> pyexn + pydict" where
  "parse_verdict_try E content =
     (let json_text = extract_json E content;
          loaded =
            (case json_text of
               OfJson (JStr s) \<Rightarrow>
                 (case json_loads E s of Inl e \<Rightarrow> Inl e | Inr v \<Rightarrow> Inr (OfJson v))
             | OfLit (LStr s) \<Rightarrow>
                 (case json_loads E s of Inl e \<Rightarrow> Inl e | Inr v \<Rightarrow> Inr (OfJson v))
             | other \<Rightarrow> Inr other)
      in case loaded of
           Inl e \<Rightarrow> Inl e
         | Inr verdict \<Rightarrow>
             (case lacks_field verdict of
                Inl e \<Rightarrow> Inl e
              | Inr True \<Rightarrow> shape_verdict (OfJson (JObj fallback_verdict))
              | Inr False \<Rightarrow> shape_verdict verdict))"

definition unparsed_verdict :: pydict where
  "unparsed_verdict =
     [(''compromise'', JStr (''The negotiation was processed, but a structured verdict '' @
         ''could not be generated. Please try again.'')),
      (''summary'', JStr ''Error parsing AI response.'')]"

text \<open>The inner \<^verbatim>\<open>try\<close> with its \<^verbatim>\<open>except json.JSONDecodeError\<close>; any other exception
  leaves it.\<close>

definition parse_verdict :: "env \<Rightarrow> json \<Rightarrow> pyexn + pydict" where
  "parse_verdict E content =
     (case parse_verdict_try E content of
        Inl e \<Rightarrow> if exn_class_of e = JSONDecodeError then Inr unparsed_verdict else Inl e
      | Inr v \<Rightarrow> Inr v)"

text \<open>\<^verbatim>\<open>v[k]\<close> for a string key, and \<^verbatim>\<open>v[0]\<close>.\<close>

fun py_getitem :: "json \<Rightarrow> string \<Rightarrow> pyexn + json" where
  "py_getitem (JObj d) k =
     (case map_of d k of None \<Rightarrow> Inl (PyExn KeyError (squote k)) | Some v \<Rightarrow> Inr v)"
| "py_getitem (JArr xs) k =
     Inl (PyExn TypeError ''list indices must be integers or slices, not str'')"
| "py_getitem (JStr s) k =
     Inl (PyExn TypeError (''string indices must be integers, not '' @ squote ''str''))"
| "py_getitem v k =
     Inl (PyExn TypeError (squote (type_name v) @ '' object is not subscriptable''))"

fun py_getitem0 :: "json \<Rightarrow> pyexn + json" where
  "py_getitem0 (JArr []) = Inl (PyExn IndexError ''list index out of range'')"
| "py_getitem0 (JArr (x # xs)) = Inr x"
| "py_getitem0 (JStr []) = Inl (PyExn IndexError ''string index out of range'')"
| "py_getitem0 (JStr (c # cs)) = Inr (JStr [c])"
| "py_getitem0 (JObj d) = Inl (PyExn KeyError ''0'')"
| "py_getitem0 v =
     Inl (PyExn TypeError (squote (type_name v) @ '' object is not subscriptable''))"

text \<open>\<^verbatim>\<open>response_data["choices"][0]["message"]["content"]\<close>\<close>

definition response_content :: "json \<Rightarrow> pyexn + json" where
  "response_content response_data =
     (case py_getitem response_data ''choices'' of
        Inl e \<Rightarrow> Inl e
      | Inr choices \<Rightarrow>
          (case py_getitem0 choices of
             Inl e \<Rightarrow> Inl e
           | Inr choice \<Rightarrow>
               (case py_getitem choice ''message'' of
                  Inl e \<Rightarrow> Inl e
                | Inr message \<Rightarrow> py_getitem message ''content'')))"

text \<open>The dictionary returned for a status other than 200.\<close>

definition api_failed_verdict :: "oracle_response \<Rightarrow> pydict" where
  "api_failed_verdict response =
     [(''summary'', JStr ''API request failed.''),
      (''compromise'', JStr (''Status code: '' @ show_int (status_code response) @
         ''. Error: '' @ response_text response))]"

text \<open>The body of the outer \<^verbatim>\<open>try\<close>, from the outcome of \<^verbatim>\<open>requests.post\<close>.\<close>

definition generate_verdict_try :: "env \<Rightarrow> pyexn + oracle_response \<Rightarrow> pyexn + pydict" where
  "generate_verdict_try E outcome =
     (case outcome of
        Inl e \<Rightarrow> Inl e
      | Inr response \<Rightarrow>
          if status_code response = 200 then
            (case response_json response of
               Inl e \<Rightarrow> Inl e
             | Inr response_data \<Rightarrow>
                 (case response_content response_data of
                    Inl e \<Rightarrow> Inl e
                  | Inr content \<Rightarrow> parse_verdict E content))
          else Inr (api_failed_verdict response))"

text \<open>The dictionary of the outer \<^verbatim>\<open>except Exception as e\<close>.\<close>

definition error_verdict :: "pyexn \<Rightarrow> pydict" where
  "error_verdict e =
     [(''compromise'', JStr (''An error occurred: '' @ exn_str e)),
      (''summary'', JStr ''Error generating verdict.'')]"

text \<open>The outer \<^verbatim>\<open>try\<close> with its handler: the verdict for the outcome of the request.\<close>

definition verdict_of_outcome :: "env \<Rightarrow> pyexn + oracle_response \<Rightarrow> pydict" where
  "verdict_of_outcome E outcome =
     (case generate_verdict_try E outcome of
        Inl e \<Rightarrow> error_verdict e
      | Inr v \<Rightarrow> v)"

text \<open>
  The extraction of a verdict from the text of a reply: \<^verbatim>\<open>extract_json\<close> and the
  statements of \<^verbatim>\<open>generate_verdict\<close> that follow it, with both handlers. It is what
  \<open>verdict_of_outcome\<close> computes for a reply with status 200 whose content is the
  text (lemma \<open>verdict_of_chat_reply\<close>).
\<close>

definition extract_verdict :: "env \<Rightarrow> string \<Rightarrow> pydict" where
  "extract_verdict E raw =
     (case parse_verdict E (JStr raw) of
        Inl e \<Rightarrow> error_verdict e
      | Inr v \<Rightarrow> v)"

text \<open>The body of a chat completion whose first choice has the given content.\<close>

definition chat_body :: "json \<Rightarrow> json" where
  "chat_body content =
     JObj [(''choices'', JArr [JObj [(''message'', JObj [(''content'', content)])]])]"


section \<open>The sessions and the two routes\<close>

record session =
  messages :: "json list"
  user1_count :: int
  user2_count :: int
  total_count :: int

text \<open>
  The state: the dictionary \<^verbatim>\<open>negotiations\<close>, and how many requests were sent to the
  mediation service and how many identifiers were drawn so far.
\<close>

record world =
  negotiations :: "string \<rightharpoonup> session"
  posts_made :: nat
  uuids_made :: nat

definition initial_world :: world where
  "initial_world = \<lparr>negotiations = Map.empty, posts_made = 0, uuids_made = 0\<rparr>"

text \<open>\<^verbatim>\<open>generate_verdict(messages)\<close> sends one request and returns a verdict.\<close>

definition generate_verdict :: "env \<Rightarrow> json list \<Rightarrow> world \<Rightarrow> pydict \<times> world" where
  "generate_verdict E msgs w =
     (verdict_of_outcome E (requests_post E (posts_made w) msgs),
      w\<lparr>posts_made := posts_made w + 1\<rparr>)"

type_synonym http = "json \<times> int"

definition error_body :: "string \<Rightarrow> json" where
  "error_body m = JObj [(''error'', JStr m)]"

definition missing_fields_message :: string where
  "missing_fields_message =
     ''Missing required fields: '' @ squote ''speaker'' @ '' and '' @ squote ''message'' @
     '' are required''"

definition new_session :: session where
  "new_session = \<lparr>messages = [], user1_count = 0, user2_count = 0, total_count = 0\<rparr>"

text \<open>Lines 64 to 106 of \<^verbatim>\<open>negotiate\<close>: the quota check, the append, the counts, the reply.\<close>

definition add_message :: "env \<Rightarrow> string \<Rightarrow> json \<Rightarrow> json \<Rightarrow> world \<Rightarrow> (pyexn + http) \<times> world" where
  "add_message E negotiation_id speaker message w =
     (case negotiations w negotiation_id of
        None \<Rightarrow> (Inl (PyExn KeyError (squote negotiation_id)), w)
      | Some n \<Rightarrow>
          if speaker = JStr ''user1'' \<and> user1_count n \<ge> 5 then
            (Inr (error_body ''User1 has already sent 5 messages'', 400), w)
          else if speaker = JStr ''user2'' \<and> user2_count n \<ge> 5 then
            (Inr (error_body ''User2 has already sent 5 messages'', 400), w)
          else
            let n1 = n\<lparr>messages := messages n @
                       [JObj [(''speaker'', speaker), (''message'', message)]]\<rparr>;
                n2 = (if speaker = JStr ''user1''
                      then n1\<lparr>user1_count := user1_count n1 + 1\<rparr>
                      else n1\<lparr>user2_count := user2_count n1 + 1\<rparr>);
                n3 = n2\<lparr>total_count := total_count n2 + 1\<rparr>;
                w1 = w\<lparr>negotiations := (negotiations w)(negotiation_id \<mapsto> n3)\<rparr>
            in if total_count n3 = 10 then
                 (let (verdict, w2) = generate_verdict E (messages n3) w1
                  in (Inr (JObj [(''negotiation_id'', JStr negotiation_id),
                                 (''status'', JStr ''completed''),
                                 (''verdict'', JObj verdict)], 200), w2))
               else
                 (Inr (JObj [(''negotiation_id'', JStr negotiation_id),
                             (''status'', JStr ''in_progress''),
                             (''messages_sent'', JInt (total_count n3)),
                             (''user1_messages'', JInt (user1_count n3)),
                             (''user2_messages'', JInt (user2_count n3)),
                             (''messages_remaining'', JInt (10 - total_count n3))], 200), w1))"

definition not_found :: "string \<Rightarrow> http" where
  "not_found shown = (error_body (''Negotiation with ID '' @ shown @ '' not found''), 404)"

text \<open>
  The body of the \<^verbatim>\<open>try\<close> of \<^verbatim>\<open>negotiate\<close>, from what \<^verbatim>\<open>request.json\<close> raises or gives.
  \<^verbatim>\<open>negotiation_id not in negotiations\<close> hashes the identifier (a list or a
  dictionary cannot be hashed); the keys are strings, so only a string is found.
\<close>

definition negotiate_try :: "env \<Rightarrow> pyexn + json \<Rightarrow> world \<Rightarrow> (pyexn + http) \<times> world" where
  "negotiate_try E request_json w =
     (case request_json of
        Inl e \<Rightarrow> (Inl e, w)
      | Inr data \<Rightarrow>
          if \<not> py_truthy data \<or> \<not> is_dict data then
            (Inr (error_body ''Invalid request format'', 400), w)
          else
            let negotiation_id = dict_get (dict_items data) ''negotiation_id'';
                speaker = dict_get (dict_items data) ''speaker'';
                message = dict_get (dict_items data) ''message''
            in if \<not> py_truthy speaker \<or> \<not> py_truthy message then
                 (Inr (error_body missing_fields_message, 400), w)
               else if speaker \<noteq> JStr ''user1'' \<and> speaker \<noteq> JStr ''user2'' then
                 (Inr (error_body (''Speaker must be either '' @ squote ''user1'' @
                    '' or '' @ squote ''user2''), 400), w)
               else if \<not> py_truthy negotiation_id then
                 (let new_id = uuid4 E (uuids_made w);
                      w1 = w\<lparr>negotiations := (negotiations w)(new_id \<mapsto> new_session),
                             uuids_made := uuids_made w + 1\<rparr>
                  in add_message E new_id speaker message w1)
               else
                 (case negotiation_id of
                    JArr xs \<Rightarrow>
                      (Inl (PyExn TypeError (''unhashable type: '' @ squote ''list'')), w)
                  | JObj d \<Rightarrow>
                      (Inl (PyExn TypeError (''unhashable type: '' @ squote ''dict'')), w)
                  | JStr k \<Rightarrow>
                      if negotiations w k = None then (Inr (not_found k), w)
                      else add_message E k speaker message w
                  | JInt i \<Rightarrow> (Inr (not_found (show_int i)), w)
                  | JFloat r \<Rightarrow> (Inr (not_found r), w)
                  | JBool b \<Rightarrow> (Inr (not_found (if b then ''True'' else ''False'')), w)
                  | JNull \<Rightarrow> (Inr (not_found ''None''), w)))"

text \<open>\<^verbatim>\<open>POST /negotiate\<close>: an exception becomes a 500 that carries its text.\<close>

definition negotiate :: "env \<Rightarrow> pyexn + json \<Rightarrow> world \<Rightarrow> http \<times> world" where
  "negotiate E request_json w =
     (case negotiate_try E request_json w of
        (Inl e, w') \<Rightarrow> ((error_body (exn_str e), 500), w')
      | (Inr r, w') \<Rightarrow> (r, w'))"

text \<open>\<^verbatim>\<open>GET /negotiation/<negotiation_id>\<close>\<close>

definition get_negotiation :: "env \<Rightarrow> string \<Rightarrow> world \<Rightarrow> http \<times> world" where
  "get_negotiation E negotiation_id w =
     (case negotiations w negotiation_id of
        None \<Rightarrow> ((error_body ''Negotiation not found'', 404), w)
      | Some negotiation \<Rightarrow>
          let response_data =
                [(''negotiation_id'', JStr negotiation_id),
                 (''status'', JStr (if total_count negotiation < 10
                                   then ''in_progress'' else ''completed'')),
                 (''messages_sent'', JInt (total_count negotiation)),
                 (''user1_messages'', JInt (user1_count negotiation)),
                 (''user2_messages'', JInt (user2_count negotiation)),
                 (''messages_remaining'', JInt (max 0 (10 - total_count negotiation))),
                 (''messages'', JArr (messages negotiation))]
          in if total_count negotiation = 10 then
               (let (verdict, w1) = generate_verdict E (messages negotiation) w
                in ((JObj (response_data @ [(''verdict'', JObj verdict)]), 200), w1))
             else ((JObj response_data, 200), w))"

section \<open>The routes, one request after another\<close>

datatype request =
    Negotiate "pyexn + json"
  | GetNegotiation string

fun serve :: "env \<Rightarrow> request \<Rightarrow> world \<Rightarrow> http \<times> world" where
  "serve E (Negotiate request_json) w = negotiate E request_json w"
| "serve E (GetNegotiation negotiation_id) w = get_negotiation E negotiation_id w"

fun run :: "env \<Rightarrow> request list \<Rightarrow> world \<Rightarrow> world" where
  "run E [] w = w"
| "run E (r # rs) w = run E rs (snd (serve E r w))"



section \<open>A model of json.loads\<close>

text \<open>
  \<^verbatim>\<open>json.loads\<close> is a parameter of the program above. For examples that run, here is
  a model of it, after the scanner of CPython's \<^verbatim>\<open>json.decoder\<close>: the grammar, the
  strict string rules, \<^verbatim>\<open>NaN\<close> and \<^verbatim>\<open>Infinity\<close>, the last of two equal keys, the
  limit of 4300 digits on an int. The text of an error leaves out the position. Not
  modelled: the interpreter's recursion limit, and a \<^verbatim>\<open>u\<close> escape above
  code point 255, which has no character in this model and is reported as an error.
  A float is kept as the numeral read.
\<close>

definition json_ws :: "char \<Rightarrow> bool" where
  "json_ws c = (c = CHR '' '' \<or> c = CHR 0x09 \<or> c = CHR 0x0A \<or> c = CHR 0x0D)"

definition skip_ws :: "string \<Rightarrow> string" where
  "skip_ws s = dropWhile json_ws s"

definition decode_error :: "string \<Rightarrow> pyexn" where
  "decode_error m = PyExn JSONDecodeError m"

definition out_of_fuel :: pyexn where
  "out_of_fuel = PyExn (OtherError ''RecursionError'') ''maximum recursion depth exceeded''"

definition hex_val :: "char \<Rightarrow> nat option" where
  "hex_val c =
     (let n = (of_char c :: nat) in
      if 48 \<le> n \<and> n \<le> 57 then Some (n - 48)
      else if 65 \<le> n \<and> n \<le> 70 then Some (n - 55)
      else if 97 \<le> n \<and> n \<le> 102 then Some (n - 87)
      else None)"

definition hex4 :: "string \<Rightarrow> nat option" where
  "hex4 s =
     (case map hex_val s of
        [Some a, Some b, Some c, Some d] \<Rightarrow> Some (((a * 16 + b) * 16 + c) * 16 + d)
      | _ \<Rightarrow> None)"

definition escape_char :: "char \<Rightarrow> char option" where
  "escape_char e =
     (if e = CHR 0x22 then Some (CHR 0x22)
      else if e = CHR 0x5C then Some (CHR 0x5C)
      else if e = CHR ''/'' then Some (CHR ''/'')
      else if e = CHR ''b'' then Some (CHR 0x08)
      else if e = CHR ''f'' then Some (CHR 0x0C)
      else if e = CHR ''n'' then Some (CHR 0x0A)
      else if e = CHR ''r'' then Some (CHR 0x0D)
      else if e = CHR ''t'' then Some (CHR 0x09)
      else None)"

text \<open>\<^verbatim>\<open>scanstring\<close>, from the character after the opening quote: the string and the
  rest of the text.\<close>

fun scanstring :: "string \<Rightarrow> pyexn + string \<times> string" where
  "scanstring [] = Inl (decode_error ''Unterminated string starting at'')"
| "scanstring (c # cs) =
     (if c = CHR 0x22 then Inr ([], cs)
      else if c = CHR 0x5C then
        (case cs of
           [] \<Rightarrow> Inl (decode_error ''Unterminated string starting at'')
         | e # es \<Rightarrow>
             if e = CHR ''u'' then
               (case hex4 (take 4 es) of
                  None \<Rightarrow> Inl (decode_error ''Invalid uXXXX escape'')
                | Some n \<Rightarrow>
                    if n < 256 then
                      (case scanstring (drop 4 es) of
                         Inl x \<Rightarrow> Inl x
                       | Inr (t, rest) \<Rightarrow> Inr (char_of n # t, rest))
                    else Inl (PyExn (OtherError ''OutsideModel'') ''escape above u00ff''))
             else
               (case escape_char e of
                  None \<Rightarrow> Inl (decode_error ''Invalid escape'')
                | Some d \<Rightarrow>
                    (case scanstring es of
                       Inl x \<Rightarrow> Inl x
                     | Inr (t, rest) \<Rightarrow> Inr (d # t, rest))))
      else if (of_char c :: nat) < 32 then Inl (decode_error ''Invalid control character at'')
      else
        (case scanstring cs of
           Inl x \<Rightarrow> Inl x
         | Inr (t, rest) \<Rightarrow> Inr (c # t, rest)))"

definition digits_val :: "string \<Rightarrow> nat" where
  "digits_val ds = foldl (\<lambda>a c. 10 * a + (of_char c - 48)) 0 ds"

text \<open>
  \<^verbatim>\<open>NUMBER_RE\<close>: an optional minus, then \<^verbatim>\<open>0\<close> or a numeral that does not start with
  0, then an optional fraction (a point and digits), then an optional exponent. Each
  part below is the text that its group matches at the head of a string, empty when
  the group does not match.
\<close>

definition int_part :: "string \<Rightarrow> string" where
  "int_part s =
     (case s of
        [] \<Rightarrow> []
      | d # ds \<Rightarrow>
          if \<not> is_digit d then []
          else if d = CHR ''0'' then [d]
          else d # takeWhile is_digit ds)"

definition frac_part :: "string \<Rightarrow> string" where
  "frac_part s =
     (case s of
        [] \<Rightarrow> []
      | p # f \<Rightarrow>
          if p = CHR ''.'' \<and> takeWhile is_digit f \<noteq> [] then p # takeWhile is_digit f
          else [])"

definition exp_part :: "string \<Rightarrow> string" where
  "exp_part s =
     (case s of
        [] \<Rightarrow> []
      | e # x \<Rightarrow>
          if e = CHR ''e'' \<or> e = CHR ''E'' then
            (let sg = (if prefix ''+'' x then ''+''
                       else if prefix ''-'' x then ''-'' else []);
                 xd = takeWhile is_digit (drop (length sg) x)
             in if xd = [] then [] else e # sg @ xd)
          else [])"

text \<open>The number at the head of a string, if there is one: an int when there is
  neither a fraction nor an exponent, a float otherwise.\<close>

definition scan_number :: "string \<Rightarrow> (pyexn + json \<times> string) option" where
  "scan_number s =
     (let minus = (if prefix ''-'' s then ''-'' else []);
          s1 = drop (length minus) s;
          ip = int_part s1;
          r1 = drop (length ip) s1;
          frac = frac_part r1;
          r2 = drop (length frac) r1;
          ex = exp_part r2;
          r3 = drop (length ex) r2
      in if ip = [] then None
         else if frac = [] \<and> ex = [] then
           (if length ip > 4300
            then Some (Inl (PyExn (OtherError ''ValueError'')
                   ''Exceeds the limit (4300 digits) for integer string conversion''))
            else Some (Inr (JInt ((if minus = [] then 1 else - 1) * int (digits_val ip)), r3)))
         else Some (Inr (JFloat (minus @ ip @ frac @ ex), r3)))"

text \<open>
  The last cases of \<^verbatim>\<open>scan_once\<close>, in its order: \<^verbatim>\<open>null\<close>, \<^verbatim>\<open>true\<close>, \<^verbatim>\<open>false\<close>, a
  number, \<^verbatim>\<open>NaN\<close>, \<^verbatim>\<open>Infinity\<close>, \<^verbatim>\<open>-Infinity\<close>.
\<close>

definition scan_constant :: "string \<Rightarrow> pyexn + json \<times> string" where
  "scan_constant s =
     (if prefix ''null'' s then Inr (JNull, drop 4 s)
      else if prefix ''true'' s then Inr (JBool True, drop 4 s)
      else if prefix ''false'' s then Inr (JBool False, drop 5 s)
      else
        (case scan_number s of
           Some res \<Rightarrow> res
         | None \<Rightarrow>
             if prefix ''NaN'' s then Inr (JFloat ''nan'', drop 3 s)
             else if prefix ''Infinity'' s then Inr (JFloat ''inf'', drop 8 s)
             else if prefix ''-Infinity'' s then Inr (JFloat ''-inf'', drop 9 s)
             else Inl (decode_error ''Expecting value'')))"

text \<open>\<^verbatim>\<open>dict(pairs)\<close>: a key that comes again keeps its place and takes the new value.\<close>

fun dict_set :: "pydict \<Rightarrow> string \<Rightarrow> json \<Rightarrow> pydict" where
  "dict_set [] k v = [(k, v)]"
| "dict_set (p # ps) k v = (if fst p = k then (k, v) # ps else p # dict_set ps k v)"

definition dict_of_pairs :: "(string \<times> json) list \<Rightarrow> pydict" where
  "dict_of_pairs ps = foldl (\<lambda>d p. dict_set d (fst p) (snd p)) [] ps"

text \<open>
  \<^verbatim>\<open>scan_once\<close>, \<^verbatim>\<open>JSONArray\<close> and \<^verbatim>\<open>JSONObject\<close>. The first argument bounds the number
  of nested calls. A call for an element or a member follows at least one character
  read, so twice the length of the text and two more is enough: with that bound, which
  \<open>py_json_loads\<close> gives, the cases for 0 are never met (lemma \<open>fuel_suffices\<close>).
\<close>

fun scan_once :: "nat \<Rightarrow> string \<Rightarrow> pyexn + json \<times> string"
  and scan_elements :: "nat \<Rightarrow> string \<Rightarrow> json list \<Rightarrow> pyexn + json \<times> string"
  and scan_members :: "nat \<Rightarrow> string \<Rightarrow> (string \<times> json) list \<Rightarrow> pyexn + json \<times> string"
where
  "scan_once 0 s = Inl out_of_fuel"
| "scan_once (Suc n) s =
     (case s of
        [] \<Rightarrow> Inl (decode_error ''Expecting value'')
      | c # cs \<Rightarrow>
          if c = CHR 0x22 then
            (case scanstring cs of
               Inl x \<Rightarrow> Inl x
             | Inr (t, rest) \<Rightarrow> Inr (JStr t, rest))
          else if c = CHR ''{'' then
            (case skip_ws cs of
               [] \<Rightarrow> Inl (decode_error ''Expecting property name enclosed in double quotes'')
             | q # r \<Rightarrow>
                 if q = CHR ''}'' then Inr (JObj [], r)
                 else if q = CHR 0x22 then scan_members n r []
                 else Inl (decode_error ''Expecting property name enclosed in double quotes''))
          else if c = CHR ''['' then
            (case skip_ws cs of
               [] \<Rightarrow> Inl (decode_error ''Expecting value'')
             | q # r \<Rightarrow>
                 if q = CHR '']'' then Inr (JArr [], r)
                 else scan_elements n (q # r) [])
          else scan_constant s)"
| "scan_elements 0 s acc =
     Inl out_of_fuel"
| "scan_elements (Suc n) s acc =
     (case scan_once n s of
        Inl x \<Rightarrow> Inl x
      | Inr (v, rest) \<Rightarrow>
          (case skip_ws rest of
             [] \<Rightarrow> Inl (decode_error ''Expecting , delimiter'')
           | q # r \<Rightarrow>
               if q = CHR '']'' then Inr (JArr (acc @ [v]), r)
               else if q = CHR '','' then scan_elements n (skip_ws r) (acc @ [v])
               else Inl (decode_error ''Expecting , delimiter'')))"
| "scan_members 0 s acc =
     Inl out_of_fuel"
| "scan_members (Suc n) s acc =
     (case scanstring s of
        Inl x \<Rightarrow> Inl x
      | Inr (key, rest) \<Rightarrow>
          (case skip_ws rest of
             [] \<Rightarrow> Inl (decode_error ''Expecting : delimiter'')
           | q # r \<Rightarrow>
               if q \<noteq> CHR '':'' then Inl (decode_error ''Expecting : delimiter'')
               else
                 (case scan_once n (skip_ws r) of
                    Inl x \<Rightarrow> Inl x
                  | Inr (v, rest1) \<Rightarrow>
                      (case skip_ws rest1 of
                         [] \<Rightarrow> Inl (decode_error ''Expecting , delimiter'')
                       | q1 # r1 \<Rightarrow>
                           if q1 = CHR ''}'' then Inr (JObj (dict_of_pairs (acc @ [(key, v)])), r1)
                           else if q1 = CHR '','' then
                             (case skip_ws r1 of
                                [] \<Rightarrow> Inl (decode_error
                                       ''Expecting property name enclosed in double quotes'')
                              | q2 # r2 \<Rightarrow>
                                  if q2 = CHR 0x22 then scan_members n r2 (acc @ [(key, v)])
                                  else Inl (decode_error
                                         ''Expecting property name enclosed in double quotes''))
                           else Inl (decode_error ''Expecting , delimiter'')))))"

definition py_json_loads :: "string \<Rightarrow> pyexn + json" where
  "py_json_loads s =
     (case scan_once (2 * length s + 2) (skip_ws s) of
        Inl x \<Rightarrow> Inl x
      | Inr (v, rest) \<Rightarrow>
          if skip_ws rest = [] then Inr v else Inl (decode_error ''Extra data''))"

section \<open>Predicates and examples for the properties\<close>





text \<open>The text of a verdict written as a JSON object, the two strings as they are.\<close>

definition verdict_json :: "string \<Rightarrow> string \<Rightarrow> string" where
  \<open>verdict_json S C = ''{"summary":"'' @ S @ ''","compromise":"'' @ C @ ''"}''\<close>

text \<open>
  An environment for the examples: the model of \<^verbatim>\<open>json.loads\<close>; a
  \<^verbatim>\<open>literal_eval\<close> that rejects its text, used here only on texts that are not
  Python literals; a mediation service that answers every request with the same
  verdict; identifiers \<^verbatim>\<open>a\<close>, \<^verbatim>\<open>aa\<close>, \<^verbatim>\<open>aaa\<close> and so on.
\<close>

definition example_reply :: oracle_response where
  \<open>example_reply =
     \<lparr>status_code = 200, response_text = [],
      response_json = Inr (chat_body (JStr ''{"summary":"S","compromise":"C"}''))\<rparr>\<close>

definition rejecting_literal_eval :: "string \<Rightarrow> pyexn + pylit" where
  "rejecting_literal_eval t = Inl (PyExn (OtherError ''SyntaxError'') ''invalid syntax'')"

definition example_env :: env where
  "example_env =
     \<lparr>json_loads = py_json_loads,
      literal_eval = rejecting_literal_eval,
      requests_post = (\<lambda>n ms. Inr example_reply),
      uuid4 = (\<lambda>n. replicate (Suc n) (CHR ''a''))\<rparr>"

text \<open>The same with a mediation service that cannot be reached.\<close>

definition offline_env :: env where
  "offline_env =
     example_env\<lparr>requests_post :=
       (\<lambda>n ms. Inl (PyExn (OtherError ''ConnectionError'') ''connection refused''))\<rparr>"

text \<open>The bodies of requests: one that opens a session, one for a session.\<close>

definition opening_request :: "string \<Rightarrow> string \<Rightarrow> request" where
  "opening_request sp m = Negotiate (Inr (JObj [(''speaker'', JStr sp), (''message'', JStr m)]))"

definition turn_request :: "string \<Rightarrow> string \<Rightarrow> string \<Rightarrow> request" where
  "turn_request k sp m =
     Negotiate (Inr (JObj [(''negotiation_id'', JStr k), (''speaker'', JStr sp),
                           (''message'', JStr m)]))"

text \<open>Ten messages, the two parties in turn.\<close>

definition ten_turns :: "request list" where
  "ten_turns =
     [opening_request ''user1'' ''offer A'',
      turn_request ''a'' ''user2'' ''offer B'',
      turn_request ''a'' ''user1'' ''m3'',
      turn_request ''a'' ''user2'' ''m4'',
      turn_request ''a'' ''user1'' ''m5'',
      turn_request ''a'' ''user2'' ''m6'',
      turn_request ''a'' ''user1'' ''m7'',
      turn_request ''a'' ''user2'' ''m8'',
      turn_request ''a'' ''user1'' ''m9'',
      turn_request ''a'' ''user2'' ''m10'']"

text \<open>
  The shape that every extracted verdict has: the two keys, and values that are either
  the two values of an object that \<^verbatim>\<open>json.loads\<close> returned or two non-empty strings.
\<close>

definition settled :: "env \<Rightarrow> pydict \<Rightarrow> bool" where
  "settled E vd =
     (map fst vd = [''compromise'', ''summary''] \<and>
      ((\<exists>t d c s. json_loads E t = Inr (JObj d) \<and> map_of d ''compromise'' = Some c \<and>
           map_of d ''summary'' = Some s \<and> vd = [(''compromise'', c), (''summary'', s)]) \<or>
       (\<exists>c s. c \<noteq> [] \<and> s \<noteq> [] \<and> vd = [(''compromise'', JStr c), (''summary'', JStr s)])))"

text \<open>Where the value that the checks look at comes from.\<close>

definition traced :: "env \<Rightarrow> pyobj \<Rightarrow> bool" where
  "traced E v = (\<forall>d. v = OfJson (JObj d) \<longrightarrow>
      d = parse_error_dict \<or> (\<exists>t. json_loads E t = Inr (JObj d)))"

section \<open>The sessions keep their counts\<close>

lemma generate_verdict_negotiations [simp]:
  "negotiations (snd (generate_verdict E ms w)) = negotiations w"
  "uuids_made (snd (generate_verdict E ms w)) = uuids_made w"
  by (simp_all add: generate_verdict_def)







lemma get_negotiation_negotiations [simp]:
  "negotiations (snd (get_negotiation E k w)) = negotiations w"
  "uuids_made (snd (get_negotiation E k w)) = uuids_made w"
  by (simp_all add: get_negotiation_def generate_verdict_def Let_def split: option.splits)






section \<open>A session is completed once\<close>














section \<open>The replies of POST /negotiate and GET /negotiation\<close>

lemmas route_defs =
  negotiate_def negotiate_try_def add_message_def dict_get_def new_session_def Let_def
  generate_verdict_def

lemma ten_turns_state:
  "\<exists>n. negotiations (run example_env ten_turns initial_world) ''a'' = Some n \<and>
       user1_count n = 5 \<and> user2_count n = 5 \<and> total_count n = 10"
  by (simp add: example_env_def ten_turns_def opening_request_def turn_request_def
      initial_world_def route_defs)

lemma nine_turns_state:
  "\<exists>n. negotiations (run offline_env (butlast ten_turns) initial_world) ''a'' = Some n \<and>
       total_count n = 9 \<and> user2_count n = 4"
  by (simp add: offline_env_def example_env_def ten_turns_def opening_request_def
      turn_request_def initial_world_def route_defs)

lemma map_of_nonempty: "map_of d f = Some v \<Longrightarrow> d \<noteq> []"
  by auto

text \<open>
  Claim C8. A \<^verbatim>\<open>POST /negotiate\<close> whose body has no \<^verbatim>\<open>negotiation_id\<close>, the speaker
  \<^verbatim>\<open>user1\<close> and a non-empty message is answered with status 200 and a body that
  holds the identifier just drawn, the status \<^verbatim>\<open>in_progress\<close>, \<^verbatim>\<open>user1_messages\<close> 1 and
  \<^verbatim>\<open>messages_remaining\<close> 9; the session stored under the identifier is a new one
  with this message alone.
\<close>

theorem opening_message_reply:
  assumes "map_of d ''negotiation_id'' = None"
    and "map_of d ''speaker'' = Some (JStr ''user1'')"
    and "map_of d ''message'' = Some (JStr m)"
    and "m \<noteq> []"
  shows "negotiate E (Inr (JObj d)) w =
    ((JObj [(''negotiation_id'', JStr (uuid4 E (uuids_made w))),
            (''status'', JStr ''in_progress''),
            (''messages_sent'', JInt 1),
            (''user1_messages'', JInt 1),
            (''user2_messages'', JInt 0),
            (''messages_remaining'', JInt 9)], 200),
     w\<lparr>negotiations := (negotiations w)(uuid4 E (uuids_made w) \<mapsto>
          \<lparr>messages = [JObj [(''speaker'', JStr ''user1''), (''message'', JStr m)]],
           user1_count = 1, user2_count = 0, total_count = 1\<rparr>),
        uuids_made := uuids_made w + 1\<rparr>)"
  using assms map_of_nonempty [OF assms(2)] by (simp add: route_defs)

theorem opening_message_reply_witness:
  "fst (negotiate example_env
     (Inr (JObj [(''speaker'', JStr ''user1''), (''message'', JStr ''offer A'')])) initial_world) =
   (JObj [(''negotiation_id'', JStr ''a''),
          (''status'', JStr ''in_progress''),
          (''messages_sent'', JInt 1),
          (''user1_messages'', JInt 1),
          (''user2_messages'', JInt 0),
          (''messages_remaining'', JInt 9)], 200)"
  using opening_message_reply [of "[(''speaker'', JStr ''user1''), (''message'', JStr ''offer A'')]"
      "''offer A''" example_env initial_world]
  by (simp add: example_env_def initial_world_def)

text \<open>
  Claim C7. For a stored session whose \<^verbatim>\<open>user1_count\<close> is 5, a \<^verbatim>\<open>POST /negotiate\<close> for
  that session with the speaker \<^verbatim>\<open>user1\<close> and a message is answered with status 400
  and the error \<^verbatim>\<open>User1 has already sent 5 messages\<close>, and the state, with the
  transcript and the counts, is unchanged.
\<close>

theorem sixth_message_refused:
  assumes "negotiations w k = Some n" and "user1_count n = 5" and "k \<noteq> []"
    and "map_of d ''negotiation_id'' = Some (JStr k)"
    and "map_of d ''speaker'' = Some (JStr ''user1'')"
    and "map_of d ''message'' = Some msg" and "py_truthy msg"
  shows "negotiate E (Inr (JObj d)) w =
           ((error_body ''User1 has already sent 5 messages'', 400), w)"
  using assms map_of_nonempty [OF assms(5)] by (simp add: route_defs)

theorem sixth_message_refused_witness:
  "negotiate example_env
     (Inr (JObj [(''negotiation_id'', JStr ''a''), (''speaker'', JStr ''user1''),
                 (''message'', JStr ''one more'')]))
     (run example_env ten_turns initial_world) =
   ((error_body ''User1 has already sent 5 messages'', 400),
    run example_env ten_turns initial_world)"
proof -
  obtain n where n: "negotiations (run example_env ten_turns initial_world) ''a'' = Some n"
    and c: "user1_count n = 5"
    using ten_turns_state by blast
  from sixth_message_refused [where E = example_env and msg = "JStr ''one more''"
      and d = "[(''negotiation_id'', JStr ''a''), (''speaker'', JStr ''user1''),
                (''message'', JStr ''one more'')]", OF n c]
  show ?thesis by simp
qed

text \<open>
  Claim C10. A \<^verbatim>\<open>POST /negotiate\<close> whose \<^verbatim>\<open>message\<close>, or whose \<^verbatim>\<open>speaker\<close>, is the
  empty string is answered with status 400 and the error for missing fields, and the
  state is unchanged: no session is created or altered. A body that has other fields
  and lacks the field gets the same answer.
\<close>

theorem empty_field_is_missing:
  assumes "f = ''speaker'' \<or> f = ''message''"
    and "map_of d f = Some (JStr []) \<or> (map_of d f = None \<and> d \<noteq> [])"
  shows "negotiate E (Inr (JObj d)) w = ((error_body missing_fields_message, 400), w)"
  using assms by (auto simp: route_defs dest: map_of_nonempty)

theorem empty_field_is_missing_witness:
  "negotiate example_env (Inr (JObj [(''speaker'', JStr ''user1''), (''message'', JStr [])]))
     initial_world = ((error_body missing_fields_message, 400), initial_world) \<and>
   negotiate example_env (Inr (JObj [(''speaker'', JStr ''user1'')]))
     initial_world = ((error_body missing_fields_message, 400), initial_world) \<and>
   negotiate example_env (Inr (JObj [(''speaker'', JStr []), (''message'', JStr ''m'')]))
     initial_world = ((error_body missing_fields_message, 400), initial_world)"
  using empty_field_is_missing [of "''message''"
      "[(''speaker'', JStr ''user1''), (''message'', JStr [])]" example_env initial_world]
    empty_field_is_missing [of "''message''"
      "[(''speaker'', JStr ''user1'')]" example_env initial_world]
    empty_field_is_missing [of "''speaker''"
      "[(''speaker'', JStr []), (''message'', JStr ''m'')]" example_env initial_world]
  by simp

text \<open>
  Claim C9. For a stored session whose total is 10, \<^verbatim>\<open>GET /negotiation/<id>\<close> sends
  a request to the mediation service: the reply has status 200 and holds the verdict
  made from the outcome of that very request, and the only change of the state is
  that one more request was sent. A second read sends the next request and holds the
  verdict made from its outcome; no verdict is kept.
\<close>

theorem read_recomputes_verdict:
  assumes "negotiations w k = Some n" and "total_count n = 10"
  shows "get_negotiation E k w =
    ((JObj [(''negotiation_id'', JStr k),
            (''status'', JStr ''completed''),
            (''messages_sent'', JInt 10),
            (''user1_messages'', JInt (user1_count n)),
            (''user2_messages'', JInt (user2_count n)),
            (''messages_remaining'', JInt 0),
            (''messages'', JArr (messages n)),
            (''verdict'', JObj (verdict_of_outcome E (requests_post E (posts_made w) (messages n))))],
      200),
     w\<lparr>posts_made := posts_made w + 1\<rparr>) \<and>
    get_negotiation E k (snd (get_negotiation E k w)) =
    ((JObj [(''negotiation_id'', JStr k),
            (''status'', JStr ''completed''),
            (''messages_sent'', JInt 10),
            (''user1_messages'', JInt (user1_count n)),
            (''user2_messages'', JInt (user2_count n)),
            (''messages_remaining'', JInt 0),
            (''messages'', JArr (messages n)),
            (''verdict'', JObj (verdict_of_outcome E (requests_post E (posts_made w + 1) (messages n))))],
      200),
     w\<lparr>posts_made := posts_made w + 2\<rparr>)"
  using assms by (simp add: get_negotiation_def generate_verdict_def)

theorem read_recomputes_verdict_witness:
  "posts_made (snd (get_negotiation example_env ''a'' (run example_env ten_turns initial_world)))
     = posts_made (run example_env ten_turns initial_world) + 1 \<and>
   map_of (dict_items (fst (fst
       (get_negotiation example_env ''a'' (run example_env ten_turns initial_world))))) ''verdict''
     = Some (JObj [(''compromise'', JStr ''C''), (''summary'', JStr ''S'')])"
proof -
  obtain n where n: "negotiations (run example_env ten_turns initial_world) ''a'' = Some n"
    and c: "total_count n = 10"
    using ten_turns_state by blast
  have v: "verdict_of_outcome example_env (Inr example_reply) =
      [(''compromise'', JStr ''C''), (''summary'', JStr ''S'')]"
    by code_simp
  have p: "requests_post example_env i ms = Inr example_reply" for i ms
    by (simp add: example_env_def)
  from read_recomputes_verdict [OF n c, of example_env] show ?thesis
    by (simp add: v p)
qed

section \<open>A failure of the mediation service\<close>

lemma verdict_of_failure:
  "verdict_of_outcome E (Inl e) = error_verdict e"
  "status_code r \<noteq> 200 \<Longrightarrow> verdict_of_outcome E (Inr r) = api_failed_verdict r"
  by (simp_all add: verdict_of_outcome_def generate_verdict_try_def)

text \<open>
  Claim C6. When the request to the mediation service raises (a network error) or
  its reply has a status other than 200, the message that completes a session is
  still answered with status 200 and the status \<^verbatim>\<open>completed\<close>; the verdict is made
  on the spot and carries the detail of the failure: the text of the exception in
  \<^verbatim>\<open>compromise\<close>, or the status code and the body of the reply.
\<close>

theorem oracle_failure_degrades:
  assumes "negotiations w k = Some n" and "total_count n = 9" and "k \<noteq> []"
    and "map_of d ''negotiation_id'' = Some (JStr k)"
    and "map_of d ''speaker'' = Some sp" and "map_of d ''message'' = Some msg"
    and "py_truthy msg"
    and "sp = JStr ''user1'' \<and> user1_count n < 5 \<or> sp = JStr ''user2'' \<and> user2_count n < 5"
    and "outcome = requests_post E (posts_made w)
                     (messages n @ [JObj [(''speaker'', sp), (''message'', msg)]])"
    and "(\<exists>e. outcome = Inl e) \<or> (\<exists>r. outcome = Inr r \<and> status_code r \<noteq> 200)"
  shows "fst (negotiate E (Inr (JObj d)) w) =
           (JObj [(''negotiation_id'', JStr k),
                  (''status'', JStr ''completed''),
                  (''verdict'', JObj (case outcome of
                      Inl e \<Rightarrow> [(''compromise'', JStr (''An error occurred: '' @ exn_str e)),
                                (''summary'', JStr ''Error generating verdict.'')]
                    | Inr r \<Rightarrow> [(''summary'', JStr ''API request failed.''),
                                (''compromise'', JStr (''Status code: '' @ show_int (status_code r) @
                                   ''. Error: '' @ response_text r))]))], 200)"
  using assms map_of_nonempty [OF assms(5)]
  by (auto simp: route_defs verdict_of_failure error_verdict_def api_failed_verdict_def)

theorem oracle_failure_degrades_witness:
  "fst (negotiate offline_env
     (Inr (JObj [(''negotiation_id'', JStr ''a''), (''speaker'', JStr ''user2''),
                 (''message'', JStr ''m10'')]))
     (run offline_env (butlast ten_turns) initial_world)) =
   (JObj [(''negotiation_id'', JStr ''a''),
          (''status'', JStr ''completed''),
          (''verdict'', JObj
             [(''compromise'', JStr ''An error occurred: connection refused''),
              (''summary'', JStr ''Error generating verdict.'')])], 200)"
proof -
  obtain n where n: "negotiations (run offline_env (butlast ten_turns) initial_world) ''a'' = Some n"
    and c: "total_count n = 9" "user2_count n = 4"
    using nine_turns_state by blast
  have p: "requests_post offline_env i ms =
      Inl (PyExn (OtherError ''ConnectionError'') ''connection refused'')" for i ms
    by (simp add: offline_env_def example_env_def)
  from oracle_failure_degrades [where E = offline_env and sp = "JStr ''user2''"
      and msg = "JStr ''m10''"
      and d = "[(''negotiation_id'', JStr ''a''), (''speaker'', JStr ''user2''),
                (''message'', JStr ''m10'')]", OF n c(1)]
  show ?thesis by (simp add: c p)
qed

section \<open>The verdict always has its two fields\<close>

lemma verdict_of_chat_reply:
  "status_code r = 200 \<Longrightarrow> response_json r = Inr (chat_body (JStr raw)) \<Longrightarrow>
   verdict_of_outcome E (Inr r) = extract_verdict E raw"
  by (simp add: verdict_of_outcome_def generate_verdict_try_def response_content_def
      chat_body_def extract_verdict_def)

lemma settled_error: "settled E (error_verdict e)"
  by (simp add: settled_def error_verdict_def)

lemma settled_unparsed: "settled E unparsed_verdict"
  by (simp add: settled_def unparsed_verdict_def)

lemma shape_fallback:
  "shape_verdict (OfJson (JObj fallback_verdict)) =
     Inr [(''compromise'', JStr ''Please try again with clearer negotiation points.''),
          (''summary'', JStr ''Failed to generate proper verdict format.'')]"
  by (simp add: shape_verdict_def fallback_verdict_def)

lemma shape_parse_error:
  "shape_verdict (OfJson (JObj parse_error_dict)) =
     Inr [(''compromise'', JStr ''Could not extract valid JSON from the model response.''),
          (''summary'', JStr ''Error parsing response.'')]"
  "lacks_field (OfJson (JObj parse_error_dict)) = Inr False"
  by (simp_all add: shape_verdict_def parse_error_dict_def lacks_field_def)

lemma lacks_field_dict:
  "lacks_field (OfJson (JObj d)) =
     Inr (map_of d ''summary'' = None \<or> map_of d ''compromise'' = None)"
  by (auto simp: lacks_field_def split: bool.splits)

lemma shape_dict:
  "map_of d ''compromise'' = Some c \<Longrightarrow> map_of d ''summary'' = Some s \<Longrightarrow>
   shape_verdict (OfJson (JObj d)) = Inr [(''compromise'', c), (''summary'', s)]"
  by (simp add: shape_verdict_def)

lemma shape_nondict:
  assumes "\<And>d. v \<noteq> OfJson (JObj d)"
  shows "\<exists>e. shape_verdict v = Inl e \<and> exn_class_of e = AttributeError"
proof (cases v)
  case (OfJson j)
  with assms show ?thesis by (cases j) (auto simp: shape_verdict_def)
next
  case (OfLit l)
  then show ?thesis by (simp add: shape_verdict_def)
qed

lemma extract_json_traced: "traced E (extract_json E c)"
  by (auto simp: traced_def extract_json_def extract_json_try_def
      split: sum.splits json.splits option.splits)

lemma checked_settled:
  assumes "traced E v"
    and "(case lacks_field v of
            Inl e \<Rightarrow> Inl e
          | Inr True \<Rightarrow> shape_verdict (OfJson (JObj fallback_verdict))
          | Inr False \<Rightarrow> shape_verdict v) = Inr vd"
  shows "settled E vd"
proof (cases "\<exists>d. v = OfJson (JObj d)")
  case True
  then obtain d where v: "v = OfJson (JObj d)" by blast
  show ?thesis
  proof (cases "map_of d ''summary'' = None \<or> map_of d ''compromise'' = None")
    case True
    with assms(2) v show ?thesis
      by (auto simp: lacks_field_dict shape_fallback settled_def)
  next
    case False
    then obtain c s where cs: "map_of d ''compromise'' = Some c" "map_of d ''summary'' = Some s"
      by auto
    with assms(2) v have vd: "vd = [(''compromise'', c), (''summary'', s)]"
      by (simp add: lacks_field_dict shape_dict)
    from assms(1) v consider "d = parse_error_dict" | t where "json_loads E t = Inr (JObj d)"
      by (auto simp: traced_def)
    then show ?thesis
    proof cases
      case 1
      with cs vd show ?thesis by (auto simp: settled_def parse_error_dict_def)
    next
      case 2
      with cs vd show ?thesis by (auto simp: settled_def)
    qed
  qed
next
  case False
  then obtain e where "shape_verdict v = Inl e" using shape_nondict [of v] by blast
  with assms(2) show ?thesis
    by (auto simp: shape_fallback settled_def split: sum.splits bool.splits)
qed

lemma parse_verdict_try_settled:
  assumes "parse_verdict_try E c = Inr vd"
  shows "settled E vd"
proof -
  define loaded where "loaded =
    (case extract_json E c of
       OfJson (JStr s) \<Rightarrow>
         (case json_loads E s of Inl e \<Rightarrow> Inl e | Inr v \<Rightarrow> Inr (OfJson v))
     | OfLit (LStr s) \<Rightarrow>
         (case json_loads E s of Inl e \<Rightarrow> Inl e | Inr v \<Rightarrow> Inr (OfJson v))
     | other \<Rightarrow> Inr other)"
  from assms obtain v where v: "loaded = Inr v"
    and chk: "(case lacks_field v of
            Inl e \<Rightarrow> Inl e
          | Inr True \<Rightarrow> shape_verdict (OfJson (JObj fallback_verdict))
          | Inr False \<Rightarrow> shape_verdict v) = Inr vd"
    by (auto simp: parse_verdict_try_def Let_def loaded_def split: sum.splits)
  have "traced E v"
    using v extract_json_traced [of E c]
    by (auto simp: loaded_def traced_def split: pyobj.splits json.splits pylit.splits sum.splits)
  then show ?thesis using chk by (rule checked_settled)
qed

lemma extract_verdict_settled: "settled E (extract_verdict E raw)"
  by (auto simp: extract_verdict_def parse_verdict_def settled_error settled_unparsed
      parse_verdict_try_settled split: sum.splits if_splits)

text \<open>
  Claim C3, as amended. For every text and every environment the extraction returns
  a dictionary (no exception leaves it) whose keys are \<^verbatim>\<open>compromise\<close> and
  \<^verbatim>\<open>summary\<close>; its two values are either the values that an object returned by
  \<^verbatim>\<open>json.loads\<close> has under these keys, whatever they are, or two non-empty strings.
\<close>

theorem extract_verdict_shape:
  "map fst (extract_verdict E raw) = [''compromise'', ''summary''] \<and>
   ((\<exists>t d c s. json_loads E t = Inr (JObj d) \<and> map_of d ''compromise'' = Some c \<and>
        map_of d ''summary'' = Some s \<and>
        extract_verdict E raw = [(''compromise'', c), (''summary'', s)]) \<or>
    (\<exists>c s. c \<noteq> [] \<and> s \<noteq> [] \<and>
        extract_verdict E raw = [(''compromise'', JStr c), (''summary'', JStr s)]))"
  using extract_verdict_settled [of E raw] by (simp add: settled_def)

theorem extract_verdict_shape_witness:
  "map fst (extract_verdict example_env (verdict_json ''S'' ''C'')) = [''compromise'', ''summary''] \<and>
   extract_verdict example_env (verdict_json ''S'' ''C'') =
     [(''compromise'', JStr ''C''), (''summary'', JStr ''S'')]"
proof -
  have "extract_verdict example_env (verdict_json ''S'' ''C'') =
     [(''compromise'', JStr ''C''), (''summary'', JStr ''S'')]"
    by code_simp
  with extract_verdict_shape [of example_env "verdict_json ''S'' ''C''"] show ?thesis
    by simp
qed

text \<open>
  Claim C3 as stated fails: the values of the oracle's object pass unchecked. For the
  text \<^verbatim>\<open>{"summary":"","compromise":""}\<close> both fields are empty strings, and for
  \<^verbatim>\<open>{"summary": 1, "compromise": null}\<close> neither is a string.
\<close>

theorem extract_verdict_unchecked_values:
  \<open>extract_verdict example_env (verdict_json [] []) =
     [(''compromise'', JStr []), (''summary'', JStr [])] \<and>
   extract_verdict example_env ''{"summary": 1, "compromise": null}'' =
     [(''compromise'', JNull), (''summary'', JInt 1)]\<close>
  by code_simp

section \<open>What a failed parse and a missing field give\<close>


lemma extract_verdict_of_dict:
  assumes "extract_json E (JStr raw) = OfJson (JObj d)"
  shows "extract_verdict E raw =
    (if map_of d ''summary'' = None \<or> map_of d ''compromise'' = None
     then [(''compromise'', JStr ''Please try again with clearer negotiation points.''),
           (''summary'', JStr ''Failed to generate proper verdict format.'')]
     else [(''compromise'', the (map_of d ''compromise'')), (''summary'', the (map_of d ''summary''))])"
  using assms
  by (auto simp: extract_verdict_def parse_verdict_def parse_verdict_try_def lacks_field_dict
      shape_fallback shape_dict)




section \<open>The round trip of a verdict written as JSON\<close>

lemma prefix_snoc_notin:
  "c \<notin> set p \<Longrightarrow> prefix p (xs @ c # r) \<longleftrightarrow> prefix p xs"
proof (induction p arbitrary: xs)
  case Nil
  then show ?case by simp
next
  case (Cons a p)
  then show ?case by (cases xs) auto
qed

lemma re_sub_fences_Nil [simp]: "re_sub_fences [] = []"
  by (subst re_sub_fences.simps) simp

lemma re_sub_fences_json:
  "prefix (fence @ ''json'') s \<Longrightarrow> re_sub_fences s = re_sub_fences (drop 7 s)"
  by (subst re_sub_fences.simps) (auto simp: fence_def)

lemma re_sub_fences_fence:
  "\<not> prefix (fence @ ''json'') s \<Longrightarrow> prefix fence s \<Longrightarrow>
   re_sub_fences s = re_sub_fences (drop 3 s)"
  by (subst re_sub_fences.simps) (auto simp: fence_def)

lemma re_sub_fences_char:
  assumes "\<not> prefix fence (c # s)"
  shows "re_sub_fences (c # s) = c # re_sub_fences s"
proof -
  have "\<not> prefix (fence @ ''json'') (c # s)"
    using assms by (blast dest: append_prefixD)
  with assms show ?thesis by (subst re_sub_fences.simps) simp
qed

lemma brace_not_in_fence:
  "CHR ''{'' \<notin> set (fence @ ''json'')" "CHR ''{'' \<notin> set fence"
  by (simp_all add: fence_def)

lemma re_sub_fences_brace:
  "re_sub_fences (pre @ CHR ''{'' # r) = re_sub_fences pre @ re_sub_fences (CHR ''{'' # r)"
proof (induction pre rule: re_sub_fences.induct)
  case (1 s)
  show ?case
  proof (cases "s = []")
    case True
    then show ?thesis by simp
  next
    case ne: False
    show ?thesis
    proof (cases "prefix (fence @ ''json'') s")
      case True
      then have len: "7 \<le> length s" by (auto dest: prefix_length_le simp: fence_def)
      from True have "prefix (fence @ ''json'') (s @ CHR ''{'' # r)" by (rule prefix_prefix)
      then have "re_sub_fences (s @ CHR ''{'' # r) = re_sub_fences (drop 7 s @ CHR ''{'' # r)"
        using len by (simp add: re_sub_fences_json)
      also have "\<dots> = re_sub_fences (drop 7 s) @ re_sub_fences (CHR ''{'' # r)"
        using "1.IH"(1) [OF ne True] .
      finally show ?thesis using True by (simp add: re_sub_fences_json)
    next
      case nj: False
      then have nj': "\<not> prefix (fence @ ''json'') (s @ CHR ''{'' # r)"
        by (simp add: prefix_snoc_notin [OF brace_not_in_fence(1)])
      show ?thesis
      proof (cases "prefix fence s")
        case True
        then have len: "3 \<le> length s" by (auto dest: prefix_length_le simp: fence_def)
        from True have "prefix fence (s @ CHR ''{'' # r)" by (rule prefix_prefix)
        then have "re_sub_fences (s @ CHR ''{'' # r) = re_sub_fences (drop 3 s @ CHR ''{'' # r)"
          using len nj' by (simp add: re_sub_fences_fence)
        also have "\<dots> = re_sub_fences (drop 3 s) @ re_sub_fences (CHR ''{'' # r)"
          using "1.IH"(2) [OF ne nj True] .
        finally show ?thesis using True nj by (simp add: re_sub_fences_fence)
      next
        case nf: False
        then have nf': "\<not> prefix fence (s @ CHR ''{'' # r)"
          by (simp add: prefix_snoc_notin [OF brace_not_in_fence(2)])
        from ne obtain c s' where s: "s = c # s'" by (cases s) auto
        have "re_sub_fences (s @ CHR ''{'' # r) = c # re_sub_fences (s' @ CHR ''{'' # r)"
          using nf' by (simp add: s re_sub_fences_char)
        also have "\<dots> = c # re_sub_fences s' @ re_sub_fences (CHR ''{'' # r)"
          using "1.IH"(3) [OF ne nj nf] by (simp add: s)
        finally show ?thesis using nf by (simp add: s re_sub_fences_char)
      qed
    qed
  qed
qed

lemma re_sub_fences_plain:
  "CHR 0x60 \<notin> set a \<Longrightarrow> re_sub_fences (a @ r) = a @ re_sub_fences r"
  by (induction a) (auto simp: re_sub_fences_char fence_def)

lemma re_sub_fences_nofence:
  "\<not> sublist fence s \<Longrightarrow> c \<noteq> CHR 0x60 \<Longrightarrow>
   re_sub_fences (s @ c # r) = s @ re_sub_fences (c # r)"
proof (induction s)
  case Nil
  then show ?case by simp
next
  case (Cons x xs)
  from Cons.prems(1) have np: "\<not> prefix fence (x # xs)" and ns: "\<not> sublist fence xs"
    by (auto simp: sublist_Cons_right)
  have "\<not> prefix fence (x # xs @ c # r)"
  proof (cases xs)
    case Nil
    then show ?thesis using Cons.prems(2) by (auto simp: fence_def)
  next
    case xs: (Cons y ys)
    show ?thesis
    proof (cases ys)
      case Nil
      then show ?thesis using Cons.prems(2) xs by (auto simp: fence_def)
    next
      case (Cons z zs)
      then show ?thesis using np xs by (auto simp: fence_def)
    qed
  qed
  then show ?case using Cons.IH [OF ns Cons.prems(2)] by (simp add: re_sub_fences_char)
qed

lemma set_re_sub_fences: "set (re_sub_fences s) \<subseteq> set s"
proof (induction s rule: re_sub_fences.induct)
  case (1 s)
  show ?case
  proof (cases "s = []")
    case True
    then show ?thesis by simp
  next
    case ne: False
    show ?thesis
    proof (cases "prefix (fence @ ''json'') s")
      case True
      with "1.IH"(1) [OF ne True] set_drop_subset [of 7 s] show ?thesis
        by (auto simp: re_sub_fences_json)
    next
      case nj: False
      show ?thesis
      proof (cases "prefix fence s")
        case True
        with "1.IH"(2) [OF ne nj True] set_drop_subset [of 3 s] nj show ?thesis
          by (auto simp: re_sub_fences_fence)
      next
        case nf: False
        from ne obtain c s' where s: "s = c # s'" by (cases s) auto
        with "1.IH"(3) [OF ne nj nf] nf show ?thesis
          by (auto simp: re_sub_fences_char)
      qed
    qed
  qed
qed

lemma verdict_json_fences:
  assumes "\<not> sublist fence S" and "\<not> sublist fence C"
  shows "re_sub_fences (verdict_json S C @ post) = verdict_json S C @ re_sub_fences post"
proof -
  have q: "CHR 0x22 \<noteq> CHR 0x60" by simp
  have \<open>re_sub_fences (verdict_json S C @ post) =
        re_sub_fences (''{"summary":"'' @ (S @ CHR 0x22 # ('',"compromise":"'' @ (C @ CHR 0x22 # (''}'' @ post)))))\<close>
    by (simp add: verdict_json_def)
  also have \<open>\<dots> = ''{"summary":"'' @ re_sub_fences (S @ CHR 0x22 # ('',"compromise":"'' @ (C @ CHR 0x22 # (''}'' @ post))))\<close>
    by (rule re_sub_fences_plain) simp
  also have \<open>\<dots> = ''{"summary":"'' @ S @ re_sub_fences (''"'' @ '',"compromise":"'' @ (C @ CHR 0x22 # (''}'' @ post)))\<close>
    using re_sub_fences_nofence [OF assms(1) q] by simp
  also have \<open>\<dots> = ''{"summary":"'' @ S @ ''","compromise":"'' @ re_sub_fences (C @ CHR 0x22 # (''}'' @ post))\<close>
    using re_sub_fences_plain [of \<open>''","compromise":"''\<close>] by simp
  also have \<open>\<dots> = ''{"summary":"'' @ S @ ''","compromise":"'' @ C @ re_sub_fences (''"}'' @ post)\<close>
    using re_sub_fences_nofence [OF assms(2) q] by simp
  also have \<open>\<dots> = ''{"summary":"'' @ S @ ''","compromise":"'' @ C @ ''"}'' @ re_sub_fences post\<close>
    using re_sub_fences_plain [of \<open>''"}''\<close>] by simp
  finally show ?thesis by (simp add: verdict_json_def)
qed


lemma py_strip_around:
  assumes "\<not> py_isspace x" and "\<not> py_isspace y"
  shows "py_strip (a @ x # mid @ y # b) =
           dropWhile py_isspace a @ x # mid @ y # rev (dropWhile py_isspace (rev b))"
proof -
  have "dropWhile py_isspace (a @ x # mid @ y # b) = dropWhile py_isspace a @ x # mid @ y # b"
    using assms(1) by (rule dropWhile_append3)
  moreover have "dropWhile py_isspace (rev b @ y # rev mid @ x # rev (dropWhile py_isspace a)) =
      dropWhile py_isspace (rev b) @ y # rev mid @ x # rev (dropWhile py_isspace a)"
    using assms(2) by (rule dropWhile_append3)
  ultimately show ?thesis by (simp add: py_strip_def)
qed

lemma re_search_braces_found:
  assumes "CHR ''{'' \<notin> set a" and "CHR ''}'' \<notin> set b"
  shows "re_search_braces (a @ CHR ''{'' # mid @ CHR ''}'' # b) = Some (CHR ''{'' # mid @ [CHR ''}''])"
proof -
  have 1: "dropWhile (\<lambda>c. c \<noteq> CHR ''{'') (a @ CHR ''{'' # mid @ CHR ''}'' # b) =
        CHR ''{'' # mid @ CHR ''}'' # b"
    using assms(1) by (simp add: dropWhile_append)
  have 2: "dropWhile (\<lambda>c. c \<noteq> CHR ''}'') (rev b @ CHR ''}'' # rev mid) = CHR ''}'' # rev mid"
    using assms(2) by (simp add: dropWhile_append)
  show ?thesis by (simp add: re_search_braces_def 1 2)
qed

lemma verdict_json_braces:
  \<open>verdict_json S C = CHR ''{'' # (''"summary":"'' @ S @ ''","compromise":"'' @ C @ ''"'') @ [CHR ''}'']\<close>
  by (simp add: verdict_json_def)

lemma strip_fences_around:
  assumes "\<not> sublist fence S" and "\<not> sublist fence C"
    and "CHR ''{'' \<notin> set pre" and "CHR ''}'' \<notin> set post"
  shows "re_search_braces (strip_fences (pre @ verdict_json S C @ post)) = Some (verdict_json S C)"
proof -
  define a where "a = dropWhile py_isspace (re_sub_fences pre)"
  define b where "b = rev (dropWhile py_isspace (rev (re_sub_fences post)))"
  define mid where \<open>mid = ''"summary":"'' @ S @ ''","compromise":"'' @ C @ ''"''\<close>
  have vj: "verdict_json S C = CHR ''{'' # mid @ [CHR ''}'']"
    by (simp add: mid_def verdict_json_def)
  have "re_sub_fences (pre @ verdict_json S C @ post) =
        re_sub_fences pre @ re_sub_fences (verdict_json S C @ post)"
    unfolding vj using re_sub_fences_brace [of pre "mid @ [CHR ''}''] @ post"] by simp
  also have "\<dots> = re_sub_fences pre @ verdict_json S C @ re_sub_fences post"
    by (simp add: verdict_json_fences [OF assms(1,2)])
  finally have "strip_fences (pre @ verdict_json S C @ post) =
      py_strip (re_sub_fences pre @ CHR ''{'' # mid @ CHR ''}'' # re_sub_fences post)"
    by (simp add: strip_fences_def vj)
  also have "\<dots> = a @ CHR ''{'' # mid @ CHR ''}'' # b"
    unfolding a_def b_def by (rule py_strip_around) (simp_all add: py_isspace_def)
  finally have s: "strip_fences (pre @ verdict_json S C @ post) = a @ CHR ''{'' # mid @ CHR ''}'' # b" .
  have "set a \<subseteq> set pre"
    unfolding a_def using set_re_sub_fences [of pre] by (auto dest: set_dropWhileD)
  then have na: "CHR ''{'' \<notin> set a" using assms(3) by blast
  have "set b \<subseteq> set post"
    unfolding b_def using set_re_sub_fences [of post]
      set_dropWhileD [of _ py_isspace "rev (re_sub_fences post)"] by auto
  then have nb: "CHR ''}'' \<notin> set b" using assms(4) by blast
  have "re_search_braces (strip_fences (pre @ verdict_json S C @ post)) =
      re_search_braces (a @ CHR ''{'' # mid @ CHR ''}'' # b)"
    by (simp only: s)
  also have "\<dots> = Some (CHR ''{'' # mid @ [CHR ''}''])"
    by (rule re_search_braces_found [OF na nb])
  also have "\<dots> = Some (verdict_json S C)"
    by (simp only: vj)
  finally show ?thesis .
qed

text \<open>
  Claim C5, as amended. Let the raw text be a prefix, the object
  \<^verbatim>\<open>{"summary":"S","compromise":"C"}\<close> and a suffix (code fences and prose on either
  side), where neither \<open>S\<close> nor \<open>C\<close> holds three backticks in a row, the prefix
  holds no \<^verbatim>\<open>{\<close>, the suffix holds no \<^verbatim>\<open>}\<close>, and \<^verbatim>\<open>json.loads\<close> reads the object
  (its newlines blanked and carriage returns removed, as the program does) as the
  dictionary with these two strings. Then the extraction returns the verdict with
  summary \<open>S\<close> and compromise \<open>C\<close>.
\<close>

theorem verdict_round_trip:
  assumes "\<not> sublist fence S" and "\<not> sublist fence C"
    and "CHR ''{'' \<notin> set pre" and "CHR ''}'' \<notin> set post"
    and "json_loads E (replace_newlines (verdict_json S C)) =
           Inr (JObj [(''summary'', JStr S), (''compromise'', JStr C)])"
  shows "extract_verdict E (pre @ verdict_json S C @ post) =
           [(''compromise'', JStr C), (''summary'', JStr S)]"
proof -
  have "extract_json E (JStr (pre @ verdict_json S C @ post)) =
      OfJson (JObj [(''summary'', JStr S), (''compromise'', JStr C)])"
    by (simp add: extract_json_def extract_json_try_def strip_fences_around [OF assms(1-4)]
        assms(5))
  from extract_verdict_of_dict [OF this] show ?thesis by simp
qed

theorem verdict_round_trip_witness:
  "extract_verdict example_env
     (''Here is the verdict: '' @ fence @ ''json'' @ [CHR 0x0A] @ verdict_json ''S'' ''C'' @
      [CHR 0x0A] @ fence @ '' Done.'') =
   [(''compromise'', JStr ''C''), (''summary'', JStr ''S'')]"
proof -
  have 1: "\<not> sublist fence ''S''" "\<not> sublist fence ''C''"
    "CHR ''{'' \<notin> set (''Here is the verdict: '' @ fence @ ''json'' @ [CHR 0x0A])"
    "CHR ''}'' \<notin> set ([CHR 0x0A] @ fence @ '' Done.'')"
    by code_simp+
  have 2: "json_loads example_env (replace_newlines (verdict_json ''S'' ''C'')) =
           Inr (JObj [(''summary'', JStr ''S''), (''compromise'', JStr ''C'')])"
    by code_simp
  from verdict_round_trip [OF 1 2] show ?thesis by simp
qed

text \<open>
  Claim C5 as stated fails in two ways. A summary that is three backticks is deleted
  with the code fences, so the extraction returns an empty summary. Prose with a brace
  before the object moves the start of the greedy match, the strict parse of the
  longer span raises, and the extraction returns the dictionary of the handler.
\<close>

theorem round_trip_breaks:
  "extract_verdict example_env (verdict_json fence ''C'') =
     [(''compromise'', JStr ''C''), (''summary'', JStr [])] \<and>
   extract_verdict example_env (''Verdict {final}: '' @ verdict_json ''S'' ''C'') =
     [(''compromise'', JStr ''Could not extract valid JSON from the model response.''),
      (''summary'', JStr ''Error parsing response.'')]"
  by code_simp

section \<open>The bound of the scanner is never met\<close>

text \<open>
  Each scanner leaves a shorter text when it succeeds, and with the bound that
  \<open>py_json_loads\<close> gives no call runs into the case for 0: the model of
  \<^verbatim>\<open>json.loads\<close> never answers with \<open>out_of_fuel\<close>.
\<close>

lemma skip_ws_length: "length (skip_ws s) \<le> length s"
  by (simp add: skip_ws_def length_dropWhile_le)

lemma skip_ws_Cons: "skip_ws s = q # r \<Longrightarrow> length r < length s"
  using skip_ws_length [of s] by simp

lemma scanstring_shorter: "scanstring s = Inr (t, rest) \<Longrightarrow> length rest < length s"
proof (induction s arbitrary: t rule: scanstring.induct)
  case 1
  then show ?case by simp
next
  case (2 c cs)
  show ?case
  proof (cases "c = CHR 0x22")
    case True
    with "2.prems" show ?thesis by simp
  next
    case nq: False
    show ?thesis
    proof (cases "c = CHR 0x5C")
      case True
      show ?thesis
      proof (cases cs)
        case Nil
        with "2.prems" nq True show ?thesis by simp
      next
        case (Cons e es)
        show ?thesis
        proof (cases "e = CHR ''u''")
          case u: True
          from "2.prems" nq True Cons u obtain n t' where
            n: "hex4 (take 4 es) = Some n" "n < 256" "scanstring (drop 4 es) = Inr (t', rest)"
            by (simp split: option.splits if_splits sum.splits prod.splits)
          from "2.IH"(1) [OF nq True Cons u n(1) n(2) n(3)]
          show ?thesis by (simp add: Cons)
        next
          case nu: False
          from "2.prems" nq True Cons nu obtain d t' where
            d: "escape_char e = Some d" "scanstring es = Inr (t', rest)"
            by (simp split: option.splits if_splits sum.splits prod.splits)
          from "2.IH"(2) [OF nq True Cons nu d(1) d(2)]
          show ?thesis by (simp add: Cons)
        qed
      qed
    next
      case nb: False
      from "2.prems" nq nb obtain t' where
        c: "\<not> (of_char c :: nat) < 32" "scanstring cs = Inr (t', rest)"
        by (simp split: if_splits sum.splits prod.splits)
      from "2.IH"(3) [OF nq nb c(1) c(2)] show ?thesis by simp
    qed
  qed
qed


lemma scanstring_fuel: "scanstring s \<noteq> Inl out_of_fuel"
proof (induction s rule: scanstring.induct)
  case 1
  then show ?case by (simp add: out_of_fuel_def decode_error_def)
next
  case (2 c cs)
  show ?case
  proof (cases "c = CHR 0x22")
    case True
    then show ?thesis by simp
  next
    case nq: False
    show ?thesis
    proof (cases "c = CHR 0x5C")
      case True
      show ?thesis
      proof (cases cs)
        case Nil
        with nq True show ?thesis by (simp add: out_of_fuel_def decode_error_def)
      next
        case (Cons e es)
        show ?thesis
        proof (cases "e = CHR ''u''")
          case u: True
          show ?thesis
          proof (cases "hex4 (take 4 es)")
            case None
            with nq True Cons u show ?thesis by (simp add: out_of_fuel_def decode_error_def)
          next
            case (Some n)
            show ?thesis
            proof (cases "n < 256")
              case lt: True
              from "2.IH"(1) [OF nq True Cons u Some lt] nq True Cons u Some lt
              show ?thesis by (auto split: sum.splits prod.splits)
            next
              case False
              with nq True Cons u Some show ?thesis by (simp add: out_of_fuel_def)
            qed
          qed
        next
          case nu: False
          show ?thesis
          proof (cases "escape_char e")
            case None
            with nq True Cons nu show ?thesis by (simp add: out_of_fuel_def decode_error_def)
          next
            case (Some d)
            from "2.IH"(2) [OF nq True Cons nu Some] nq True Cons nu Some
            show ?thesis by (auto split: sum.splits prod.splits)
          qed
        qed
      qed
    next
      case nb: False
      show ?thesis
      proof (cases "(of_char c :: nat) < 32")
        case True
        with nq nb show ?thesis by (simp add: out_of_fuel_def decode_error_def)
      next
        case False
        from "2.IH"(3) [OF nq nb False] nq nb False
        show ?thesis by (auto split: sum.splits prod.splits)
      qed
    qed
  qed
qed

lemma int_part_Nil: "int_part s \<noteq> [] \<Longrightarrow> s \<noteq> []"
  by (auto simp: int_part_def)

lemma scan_number_shorter:
  assumes "scan_number s = Some (Inr (v, rest))"
  shows "length rest < length s"
proof -
  define minus where "minus = (if prefix ''-'' s then ''-'' else [])"
  define s1 where "s1 = drop (length minus) s"
  define ip where "ip = int_part s1"
  define r1 where "r1 = drop (length ip) s1"
  define r2 where "r2 = drop (length (frac_part r1)) r1"
  define r3 where "r3 = drop (length (exp_part r2)) r2"
  have eq: "scan_number s =
     (if ip = [] then None
         else if frac_part r1 = [] \<and> exp_part r2 = [] then
           (if length ip > 4300
            then Some (Inl (PyExn (OtherError ''ValueError'')
                   ''Exceeds the limit (4300 digits) for integer string conversion''))
            else Some (Inr (JInt ((if minus = [] then 1 else - 1) * int (digits_val ip)), r3)))
         else Some (Inr (JFloat (minus @ ip @ frac_part r1 @ exp_part r2), r3)))"
    unfolding scan_number_def Let_def minus_def s1_def ip_def r1_def r2_def r3_def ..
  from assms have ip: "ip \<noteq> []" and rest: "rest = r3"
    unfolding eq by (auto split: if_splits)
  from ip have "s1 \<noteq> []" unfolding ip_def by (rule int_part_Nil)
  with ip have "length r1 < length s1" by (simp add: r1_def)
  moreover have "length r3 \<le> length r1" by (simp add: r3_def r2_def)
  moreover have "length s1 \<le> length s" by (simp add: s1_def)
  ultimately show ?thesis using rest by simp
qed

lemma scan_number_fuel: "scan_number s \<noteq> Some (Inl out_of_fuel)"
proof -
  define minus where "minus = (if prefix ''-'' s then ''-'' else [])"
  define s1 where "s1 = drop (length minus) s"
  define ip where "ip = int_part s1"
  define r1 where "r1 = drop (length ip) s1"
  define r2 where "r2 = drop (length (frac_part r1)) r1"
  define r3 where "r3 = drop (length (exp_part r2)) r2"
  have eq: "scan_number s =
     (if ip = [] then None
         else if frac_part r1 = [] \<and> exp_part r2 = [] then
           (if length ip > 4300
            then Some (Inl (PyExn (OtherError ''ValueError'')
                   ''Exceeds the limit (4300 digits) for integer string conversion''))
            else Some (Inr (JInt ((if minus = [] then 1 else - 1) * int (digits_val ip)), r3)))
         else Some (Inr (JFloat (minus @ ip @ frac_part r1 @ exp_part r2), r3)))"
    unfolding scan_number_def Let_def minus_def s1_def ip_def r1_def r2_def r3_def ..
  show ?thesis unfolding eq by (simp add: out_of_fuel_def)
qed


lemma scan_constant_shorter:
  assumes "scan_constant s = Inr (v, rest)"
  shows "length rest < length s"
proof (cases "scan_number s = Some (Inr (v, rest))")
  case True
  then show ?thesis by (rule scan_number_shorter)
next
  case False
  with assms have "s \<noteq> [] \<and> (rest = drop 4 s \<or> rest = drop 5 s \<or> rest = drop 3 s \<or>
      rest = drop 8 s \<or> rest = drop 9 s)"
    unfolding scan_constant_def by (auto split: if_splits option.splits)
  then show ?thesis by auto
qed

lemma scan_constant_fuel: "scan_constant s \<noteq> Inl out_of_fuel"
proof (cases "scan_number s")
  case None
  then show ?thesis
    unfolding scan_constant_def by (simp add: out_of_fuel_def decode_error_def)
next
  case (Some res)
  with scan_number_fuel [of s] show ?thesis
    unfolding scan_constant_def by auto
qed


lemma scan_once_shorter_step:
  assumes m: "\<And>s acc v rest. scan_members n s acc = Inr (v, rest) \<Longrightarrow> length rest < length s"
    and e: "\<And>s acc v rest. scan_elements n s acc = Inr (v, rest) \<Longrightarrow> length rest < length s"
    and r: "scan_once (Suc n) s = Inr (v, rest)"
  shows "length rest < length s"
proof (cases s)
  case Nil
  with r show ?thesis by simp
next
  case (Cons c cs)
  show ?thesis
  proof (cases "c = CHR 0x22")
    case True
    show ?thesis
    proof (cases "scanstring cs")
      case (Inl x)
      with r Cons True show ?thesis by simp
    next
      case (Inr p)
      with r Cons True have "scanstring cs = Inr (fst p, rest)" by (cases p) simp
      from scanstring_shorter [OF this] show ?thesis by (simp add: Cons)
    qed
  next
    case nq: False
    show ?thesis
    proof (cases "c = CHR ''{''")
      case True
      show ?thesis
      proof (cases "skip_ws cs")
        case Nil
        with r Cons True show ?thesis by simp
      next
        case qr: (Cons q r')
        have lr: "length r' < length cs" by (rule skip_ws_Cons [OF qr])
        show ?thesis
        proof (cases "q = CHR ''}''")
          case True
          with r Cons \<open>c = CHR ''{''\<close> qr have "rest = r'" by simp
          with lr show ?thesis by (simp add: Cons)
        next
          case nc: False
          show ?thesis
          proof (cases "q = CHR 0x22")
            case True
            with r Cons \<open>c = CHR ''{''\<close> qr have "scan_members n r' [] = Inr (v, rest)" by simp
            from m [OF this] lr show ?thesis by (simp add: Cons)
          next
            case False
            with r Cons \<open>c = CHR ''{''\<close> qr nc show ?thesis by simp
          qed
        qed
      qed
    next
      case nb: False
      show ?thesis
      proof (cases "c = CHR ''[''")
        case True
        show ?thesis
        proof (cases "skip_ws cs")
          case Nil
          with r Cons True show ?thesis by simp
        next
          case qr: (Cons q r')
          have lr: "length r' < length cs" by (rule skip_ws_Cons [OF qr])
          show ?thesis
          proof (cases "q = CHR '']''")
            case True
            with r Cons \<open>c = CHR ''[''\<close> qr have "rest = r'" by simp
            with lr show ?thesis by (simp add: Cons)
          next
            case False
            with r Cons \<open>c = CHR ''[''\<close> qr
            have "scan_elements n (q # r') [] = Inr (v, rest)" by simp
            from e [OF this] lr show ?thesis by (simp add: Cons)
          qed
        qed
      next
        case nk: False
        from r Cons nq nb nk have "scan_constant s = Inr (v, rest)" by simp
        then show ?thesis by (rule scan_constant_shorter)
      qed
    qed
  qed
qed


lemma scan_elements_shorter_step:
  assumes o: "\<And>s v rest. scan_once n s = Inr (v, rest) \<Longrightarrow> length rest < length s"
    and e: "\<And>s acc v rest. scan_elements n s acc = Inr (v, rest) \<Longrightarrow> length rest < length s"
    and r: "scan_elements (Suc n) s acc = Inr (v, rest)"
  shows "length rest < length s"
proof (cases "scan_once n s")
  case (Inl x)
  with r show ?thesis by simp
next
  case (Inr p)
  obtain v1 rest1 where p: "p = (v1, rest1)" by (cases p)
  from o [OF Inr [unfolded p]] have l1: "length rest1 < length s" .
  show ?thesis
  proof (cases "skip_ws rest1")
    case Nil
    with r Inr p show ?thesis by simp
  next
    case qr: (Cons q r')
    have lr: "length r' < length rest1" by (rule skip_ws_Cons [OF qr])
    show ?thesis
    proof (cases "q = CHR '']''")
      case True
      with r Inr p qr have "rest = r'" by simp
      with lr l1 show ?thesis by simp
    next
      case nc: False
      show ?thesis
      proof (cases "q = CHR '',''")
        case True
        with r Inr p qr nc have "scan_elements n (skip_ws r') (acc @ [v1]) = Inr (v, rest)" by simp
        from e [OF this] skip_ws_length [of r'] lr l1 show ?thesis by simp
      next
        case False
        with r Inr p qr nc show ?thesis by simp
      qed
    qed
  qed
qed

lemma scan_members_shorter_step:
  assumes o: "\<And>s v rest. scan_once n s = Inr (v, rest) \<Longrightarrow> length rest < length s"
    and m: "\<And>s acc v rest. scan_members n s acc = Inr (v, rest) \<Longrightarrow> length rest < length s"
    and r: "scan_members (Suc n) s acc = Inr (v, rest)"
  shows "length rest < length s"
proof (cases "scanstring s")
  case (Inl x)
  with r show ?thesis by simp
next
  case (Inr p)
  obtain key rest0 where p: "p = (key, rest0)" by (cases p)
  from scanstring_shorter [OF Inr [unfolded p]] have l0: "length rest0 < length s" .
  show ?thesis
  proof (cases "skip_ws rest0")
    case Nil
    with r Inr p show ?thesis by simp
  next
    case qr: (Cons q r')
    have lr: "length r' < length rest0" by (rule skip_ws_Cons [OF qr])
    show ?thesis
    proof (cases "q = CHR '':''")
      case False
      with r Inr p qr show ?thesis by simp
    next
      case colon: True
      show ?thesis
      proof (cases "scan_once n (skip_ws r')")
        case (Inl x)
        with r \<open>scanstring s = Inr p\<close> p qr colon show ?thesis by simp
      next
        case v: (Inr p1)
        obtain v1 rest1 where p1: "p1 = (v1, rest1)" by (cases p1)
        from o [OF v [unfolded p1]] skip_ws_length [of r']
        have l1: "length rest1 < length r'" by simp
        show ?thesis
        proof (cases "skip_ws rest1")
          case Nil
          with r \<open>scanstring s = Inr p\<close> p qr colon v p1 show ?thesis by simp
        next
          case qr1: (Cons q1 r1)
          have lr1: "length r1 < length rest1" by (rule skip_ws_Cons [OF qr1])
          show ?thesis
          proof (cases "q1 = CHR ''}''")
            case True
            with r \<open>scanstring s = Inr p\<close> p qr colon v p1 qr1 have "rest = r1" by simp
            with lr1 l1 lr l0 show ?thesis by simp
          next
            case nc: False
            show ?thesis
            proof (cases "q1 = CHR '',''")
              case False
              with r \<open>scanstring s = Inr p\<close> p qr colon v p1 qr1 nc show ?thesis by simp
            next
              case comma: True
              show ?thesis
              proof (cases "skip_ws r1")
                case Nil
                with r \<open>scanstring s = Inr p\<close> p qr colon v p1 qr1 nc comma show ?thesis by simp
              next
                case qr2: (Cons q2 r2)
                have lr2: "length r2 < length r1" by (rule skip_ws_Cons [OF qr2])
                show ?thesis
                proof (cases "q2 = CHR 0x22")
                  case False
                  with r \<open>scanstring s = Inr p\<close> p qr colon v p1 qr1 nc comma qr2
                  show ?thesis by simp
                next
                  case True
                  with r \<open>scanstring s = Inr p\<close> p qr colon v p1 qr1 nc comma qr2
                  have "scan_members n r2 (acc @ [(key, v1)]) = Inr (v, rest)" by simp
                  from m [OF this] lr2 lr1 l1 lr l0 show ?thesis by simp
                qed
              qed
            qed
          qed
        qed
      qed
    qed
  qed
qed

lemma scan_shorter_all:
  "(\<forall>s v rest. scan_once f s = Inr (v, rest) \<longrightarrow> length rest < length s) \<and>
   (\<forall>s acc v rest. scan_elements f s acc = Inr (v, rest) \<longrightarrow> length rest < length s) \<and>
   (\<forall>s acc v rest. scan_members f s acc = Inr (v, rest) \<longrightarrow> length rest < length s)"
proof (induction f)
  case 0
  show ?case by simp
next
  case (Suc n)
  then have o: "\<And>s v rest. scan_once n s = Inr (v, rest) \<Longrightarrow> length rest < length s"
    and e: "\<And>s acc v rest. scan_elements n s acc = Inr (v, rest) \<Longrightarrow> length rest < length s"
    and m: "\<And>s acc v rest. scan_members n s acc = Inr (v, rest) \<Longrightarrow> length rest < length s"
    by blast+
  show ?case
  proof (intro conjI allI impI)
    fix s v rest
    assume "scan_once (Suc n) s = Inr (v, rest)"
    with m e show "length rest < length s" by (rule scan_once_shorter_step)
  next
    fix s acc v rest
    assume "scan_elements (Suc n) s acc = Inr (v, rest)"
    with o e show "length rest < length s" by (rule scan_elements_shorter_step)
  next
    fix s acc v rest
    assume "scan_members (Suc n) s acc = Inr (v, rest)"
    with o m show "length rest < length s" by (rule scan_members_shorter_step)
  qed
qed

lemma scan_once_shorter: "scan_once f s = Inr (v, rest) \<Longrightarrow> length rest < length s"
  using scan_shorter_all [of f] by blast


lemma scan_once_fuel_step:
  assumes m: "\<And>s acc. 2 * length s + 2 \<le> n \<Longrightarrow> scan_members n s acc \<noteq> Inl out_of_fuel"
    and e: "\<And>s acc. 2 * length s + 2 \<le> n \<Longrightarrow> scan_elements n s acc \<noteq> Inl out_of_fuel"
    and f: "2 * length s + 1 \<le> Suc n"
  shows "scan_once (Suc n) s \<noteq> Inl out_of_fuel"
proof (cases s)
  case Nil
  then show ?thesis by (simp add: out_of_fuel_def decode_error_def)
next
  case (Cons c cs)
  show ?thesis
  proof (cases "c = CHR 0x22")
    case True
    with scanstring_fuel [of cs] Cons show ?thesis by (auto split: sum.splits)
  next
    case nq: False
    show ?thesis
    proof (cases "c = CHR ''{''")
      case True
      show ?thesis
      proof (cases "skip_ws cs")
        case Nil
        with Cons True show ?thesis by (simp add: out_of_fuel_def decode_error_def)
      next
        case qr: (Cons q r')
        have lr: "length r' < length cs" by (rule skip_ws_Cons [OF qr])
        with f Cons have "2 * length r' + 2 \<le> n" by simp
        from m [OF this, of "[]"] Cons True qr show ?thesis
          by (simp add: out_of_fuel_def decode_error_def)
      qed
    next
      case nb: False
      show ?thesis
      proof (cases "c = CHR ''[''")
        case True
        show ?thesis
        proof (cases "skip_ws cs")
          case Nil
          with Cons True show ?thesis by (simp add: out_of_fuel_def decode_error_def)
        next
          case qr: (Cons q r')
          have lr: "length r' < length cs" by (rule skip_ws_Cons [OF qr])
          with f Cons have "2 * length (q # r') + 2 \<le> n" by simp
          from e [OF this, of "[]"] Cons True qr show ?thesis
            by (simp add: out_of_fuel_def decode_error_def)
        qed
      next
        case nk: False
        with Cons nq nb scan_constant_fuel [of s] show ?thesis by simp
      qed
    qed
  qed
qed

lemma scan_elements_fuel_step:
  assumes o: "\<And>s. 2 * length s + 1 \<le> n \<Longrightarrow> scan_once n s \<noteq> Inl out_of_fuel"
    and e: "\<And>s acc. 2 * length s + 2 \<le> n \<Longrightarrow> scan_elements n s acc \<noteq> Inl out_of_fuel"
    and f: "2 * length s + 2 \<le> Suc n"
  shows "scan_elements (Suc n) s acc \<noteq> Inl out_of_fuel"
proof (cases "scan_once n s")
  case (Inl x)
  from f have "2 * length s + 1 \<le> n" by simp
  from o [OF this] Inl show ?thesis by simp
next
  case (Inr p)
  obtain v1 rest1 where p: "p = (v1, rest1)" by (cases p)
  from scan_once_shorter [OF Inr [unfolded p]] have l1: "length rest1 < length s" .
  show ?thesis
  proof (cases "skip_ws rest1")
    case Nil
    with Inr p show ?thesis by (simp add: out_of_fuel_def decode_error_def)
  next
    case qr: (Cons q r')
    have lr: "length r' < length rest1" by (rule skip_ws_Cons [OF qr])
    with l1 f skip_ws_length [of r'] have "2 * length (skip_ws r') + 2 \<le> n" by simp
    from e [OF this, of "acc @ [v1]"] Inr p qr show ?thesis
      by (simp add: out_of_fuel_def decode_error_def)
  qed
qed


lemma scan_members_fuel_step:
  assumes o: "\<And>s. 2 * length s + 1 \<le> n \<Longrightarrow> scan_once n s \<noteq> Inl out_of_fuel"
    and m: "\<And>s acc. 2 * length s + 2 \<le> n \<Longrightarrow> scan_members n s acc \<noteq> Inl out_of_fuel"
    and f: "2 * length s + 2 \<le> Suc n"
  shows "scan_members (Suc n) s acc \<noteq> Inl out_of_fuel"
proof (cases "scanstring s")
  case (Inl x)
  with scanstring_fuel [of s] show ?thesis by simp
next
  case (Inr p)
  obtain key rest0 where p: "p = (key, rest0)" by (cases p)
  from scanstring_shorter [OF Inr [unfolded p]] have l0: "length rest0 < length s" .
  show ?thesis
  proof (cases "skip_ws rest0")
    case Nil
    with Inr p show ?thesis by (simp add: out_of_fuel_def decode_error_def)
  next
    case qr: (Cons q r')
    have lr: "length r' < length rest0" by (rule skip_ws_Cons [OF qr])
    show ?thesis
    proof (cases "q = CHR '':''")
      case False
      with Inr p qr show ?thesis by (simp add: out_of_fuel_def decode_error_def)
    next
      case colon: True
      show ?thesis
      proof (cases "scan_once n (skip_ws r')")
        case (Inl x)
        from l0 lr f skip_ws_length [of r'] have "2 * length (skip_ws r') + 1 \<le> n" by simp
        from o [OF this] Inl \<open>scanstring s = Inr p\<close> p qr colon show ?thesis by simp
      next
        case v: (Inr p1)
        obtain v1 rest1 where p1: "p1 = (v1, rest1)" by (cases p1)
        from scan_once_shorter [OF v [unfolded p1]] skip_ws_length [of r']
        have l1: "length rest1 < length r'" by simp
        show ?thesis
        proof (cases "skip_ws rest1")
          case Nil
          with \<open>scanstring s = Inr p\<close> p qr colon v p1 show ?thesis
            by (simp add: out_of_fuel_def decode_error_def)
        next
          case qr1: (Cons q1 r1)
          have lr1: "length r1 < length rest1" by (rule skip_ws_Cons [OF qr1])
          show ?thesis
          proof (cases "skip_ws r1")
            case Nil
            with \<open>scanstring s = Inr p\<close> p qr colon v p1 qr1 show ?thesis
              by (simp add: out_of_fuel_def decode_error_def)
          next
            case qr2: (Cons q2 r2)
            have lr2: "length r2 < length r1" by (rule skip_ws_Cons [OF qr2])
            with lr1 l1 lr l0 f have "2 * length r2 + 2 \<le> n" by simp
            from m [OF this, of "acc @ [(key, v1)]"]
              \<open>scanstring s = Inr p\<close> p qr colon v p1 qr1 qr2
            show ?thesis by (simp add: out_of_fuel_def decode_error_def)
          qed
        qed
      qed
    qed
  qed
qed

lemma scan_fuel_all:
  "(\<forall>s. 2 * length s + 1 \<le> f \<longrightarrow> scan_once f s \<noteq> Inl out_of_fuel) \<and>
   (\<forall>s acc. 2 * length s + 2 \<le> f \<longrightarrow> scan_elements f s acc \<noteq> Inl out_of_fuel) \<and>
   (\<forall>s acc. 2 * length s + 2 \<le> f \<longrightarrow> scan_members f s acc \<noteq> Inl out_of_fuel)"
proof (induction f)
  case 0
  show ?case by simp
next
  case (Suc n)
  then have o: "\<And>s. 2 * length s + 1 \<le> n \<Longrightarrow> scan_once n s \<noteq> Inl out_of_fuel"
    and e: "\<And>s acc. 2 * length s + 2 \<le> n \<Longrightarrow> scan_elements n s acc \<noteq> Inl out_of_fuel"
    and m: "\<And>s acc. 2 * length s + 2 \<le> n \<Longrightarrow> scan_members n s acc \<noteq> Inl out_of_fuel"
    by blast+
  show ?case
  proof (intro conjI allI impI)
    fix s :: string
    assume "2 * length s + 1 \<le> Suc n"
    with m e show "scan_once (Suc n) s \<noteq> Inl out_of_fuel" by (rule scan_once_fuel_step)
  next
    fix s :: string and acc
    assume "2 * length s + 2 \<le> Suc n"
    with o e show "scan_elements (Suc n) s acc \<noteq> Inl out_of_fuel"
      by (rule scan_elements_fuel_step)
  next
    fix s :: string and acc
    assume "2 * length s + 2 \<le> Suc n"
    with o m show "scan_members (Suc n) s acc \<noteq> Inl out_of_fuel"
      by (rule scan_members_fuel_step)
  qed
qed

lemma fuel_suffices: "py_json_loads s \<noteq> Inl out_of_fuel"
proof -
  have "2 * length (skip_ws s) + 1 \<le> 2 * length s + 2"
    using skip_ws_length [of s] by simp
  with scan_fuel_all [of "2 * length s + 2"]
  have "scan_once (2 * length s + 2) (skip_ws s) \<noteq> Inl out_of_fuel" by blast
  then show ?thesis
    by (auto simp: py_json_loads_def out_of_fuel_def decode_error_def split: sum.splits prod.splits)
qed

end
